theory Spec2Isabelle
  imports Main "HOL-Library.Countable" "HOL-Library.Char_ord" "HOL-Library.List_Lexorder"
begin
section \<open>JavaScript values used by the player\<close>

text \<open>
  The player is dynamically typed. The header comment of \<^verbatim>\<open>comicPlayer.js\<close> passes the
  bounds of a frame as strings (\<^verbatim>\<open>{ url: "soundUrl1.mp3", begin: "5000", end: "10000" }\<close>)
  or leaves them out, and the scheduler compares them with the numeric playback position.
  A bound is therefore a value that is absent, a number or a string. A number is a double:
  the model keeps the exact value of a finite one as a rational, the value NaN and the
  two infinities. It does not tell \<open>-0\<close> from \<open>0\<close>, which no comparison or subtraction of
  the player can. A string is a sequence of 8-bit characters.
\<close>

datatype jsnum = NaN | Fin rat | PInf | NInf

datatype jsval = JUndefined | JNumber jsnum | JString string

abbreviation num :: "rat \<Rightarrow> jsval" where
  "num q \<equiv> JNumber (Fin q)"

text \<open>Truthiness: \<^verbatim>\<open>undefined\<close>, \<^verbatim>\<open>0\<close>, \<^verbatim>\<open>NaN\<close> and the empty string are falsy.\<close>

fun truthy :: "jsval \<Rightarrow> bool" where
  "truthy JUndefined = False"
| "truthy (JNumber NaN) = False"
| "truthy (JNumber (Fin q)) = (q \<noteq> 0)"
| "truthy (JNumber PInf) = True"
| "truthy (JNumber NInf) = True"
| "truthy (JString s) = (s \<noteq> [])"

text \<open>
  The double nearest to a rational, ties to the even significand. \<open>bit_length n\<close> is the
  number of binary digits of \<open>n\<close>, and \<open>binade a\<close> the exponent \<open>e\<close> with
  \<open>2 ^ e \<le> a < 2 ^ (e + 1)\<close>, for positive \<open>a\<close>. A double has 53 significant bits, so
  the doubles of that binade are the multiples of \<open>2 ^ (e - 52)\<close>; below the exponent
  \<open>-1022\<close> the spacing stays that of \<open>-1022\<close>; and what rounds to \<open>2 ^ 1024\<close> or
  beyond is infinite.
\<close>

function bit_length :: "int \<Rightarrow> int" where
  "bit_length n = (if n \<le> 0 then 0 else 1 + bit_length (n div 2))"
  by pat_completeness auto

termination
  by (relation "measure nat") auto

declare bit_length.simps [simp del]

definition binade :: "rat \<Rightarrow> int" where
  "binade a =
     (let c = bit_length (fst (quotient_of a)) - bit_length (snd (quotient_of a))
      in if power_int 2 c \<le> a then c else c - 1)"

definition round_half_even :: "rat \<Rightarrow> int" where
  "round_half_even x =
     (let f = \<lfloor>x\<rfloor>; r = x - of_int f
      in if r < 1 / 2 then f else if 1 / 2 < r then f + 1 else if even f then f else f + 1)"

definition to_double :: "rat \<Rightarrow> jsnum" where
  "to_double q =
     (if q = 0 then Fin 0
      else
        let a = \<bar>q\<bar>;
            u = power_int 2 (max (binade a) (- 1022) - 52);
            r = of_int (round_half_even (a / u)) * u
        in if power_int 2 1024 \<le> r then (if q < 0 then NInf else PInf)
           else Fin (if q < 0 then - r else r))"

fun num_neg :: "jsnum \<Rightarrow> jsnum" where
  "num_neg NaN = NaN"
| "num_neg (Fin q) = Fin (- q)"
| "num_neg PInf = NInf"
| "num_neg NInf = PInf"

text \<open>
  String to number conversion. White space around the literal is dropped (of the 8-bit
  characters: tab, line feed, vertical tab, form feed, carriage return, space and
  no-break space), and nothing but white space converts to 0. A literal is a hexadecimal,
  octal or binary integer (\<^verbatim>\<open>0x1F\<close>, \<^verbatim>\<open>0o17\<close>, \<^verbatim>\<open>0b101\<close>, unsigned), or an optional sign
  followed by \<^verbatim>\<open>Infinity\<close> or by a decimal literal: digits with an optional fraction
  (\<^verbatim>\<open>12\<close>, \<^verbatim>\<open>12.\<close>, \<^verbatim>\<open>12.5\<close>, \<^verbatim>\<open>.5\<close>) and an optional exponent (\<^verbatim>\<open>e3\<close>, \<^verbatim>\<open>E-3\<close>). The
  literal's value is rounded to the nearest double, as the engines do it. Every other
  string converts to NaN.
\<close>

definition is_space :: "char \<Rightarrow> bool" where
  "is_space c \<longleftrightarrow> (of_char c :: nat) \<in> {9, 10, 11, 12, 13, 32, 160}"

definition trim :: "string \<Rightarrow> string" where
  "trim s = rev (dropWhile is_space (rev (dropWhile is_space s)))"

text \<open>The value of a digit of the given base, and of a run of such digits.\<close>

definition digit_of :: "int \<Rightarrow> char \<Rightarrow> int option" where
  "digit_of base c =
     (let v = (if CHR ''0'' \<le> c \<and> c \<le> CHR ''9'' then of_char c - 48
               else if CHR ''a'' \<le> c \<and> c \<le> CHR ''f'' then of_char c - 87
               else if CHR ''A'' \<le> c \<and> c \<le> CHR ''F'' then of_char c - 55
               else base)
      in if v < base then Some v else None)"

fun digits_val :: "int \<Rightarrow> int \<Rightarrow> string \<Rightarrow> int option" where
  "digits_val base acc [] = Some acc"
| "digits_val base acc (c # cs) =
     (case digit_of base c of None \<Rightarrow> None | Some d \<Rightarrow> digits_val base (base * acc + d) cs)"

definition digits :: "int \<Rightarrow> string \<Rightarrow> int option" where
  "digits base s = (if s = [] then None else digits_val base 0 s)"

definition is_digit :: "char \<Rightarrow> bool" where
  "is_digit c \<longleftrightarrow> CHR ''0'' \<le> c \<and> c \<le> CHR ''9''"

text \<open>What follows the digits of a decimal literal: nothing, or an exponent.\<close>

definition exponent_part :: "string \<Rightarrow> int option" where
  "exponent_part s =
     (case s of
        [] \<Rightarrow> Some 0
      | c # cs \<Rightarrow>
          if c = CHR ''e'' \<or> c = CHR ''E'' then
            (case cs of
               [] \<Rightarrow> None
             | d # ds \<Rightarrow>
                 if d = CHR ''-'' then map_option uminus (digits 10 ds)
                 else if d = CHR ''+'' then digits 10 ds
                 else digits 10 cs)
          else None)"

definition decimal_literal :: "string \<Rightarrow> rat option" where
  "decimal_literal s =
     (let ip = takeWhile is_digit s;
          r1 = dropWhile is_digit s;
          dot = (r1 \<noteq> [] \<and> hd r1 = CHR ''.'');
          fp = (if dot then takeWhile is_digit (tl r1) else []);
          r2 = (if dot then dropWhile is_digit (tl r1) else r1)
      in if ip = [] \<and> fp = [] then None
         else
           (case digits_val 10 0 (ip @ fp) of
              None \<Rightarrow> None
            | Some m \<Rightarrow>
                (case exponent_part r2 of
                   None \<Rightarrow> None
                 | Some x \<Rightarrow> Some (of_int m * power_int 10 (x - int (length fp))))))"

definition unsigned_literal :: "string \<Rightarrow> jsnum" where
  "unsigned_literal s =
     (if s = ''Infinity'' then PInf
      else case decimal_literal s of None \<Rightarrow> NaN | Some q \<Rightarrow> to_double q)"

definition radix_of :: "string \<Rightarrow> int option" where
  "radix_of s =
     (case s of
        c # x # ds \<Rightarrow>
          if c \<noteq> CHR ''0'' then None
          else if x = CHR ''x'' \<or> x = CHR ''X'' then Some 16
          else if x = CHR ''o'' \<or> x = CHR ''O'' then Some 8
          else if x = CHR ''b'' \<or> x = CHR ''B'' then Some 2
          else None
      | _ \<Rightarrow> None)"

definition str_to_number :: "string \<Rightarrow> jsnum" where
  "str_to_number s =
     (let t = trim s
      in if t = [] then Fin 0
         else
           (case radix_of t of
              Some base \<Rightarrow>
                (case digits base (drop 2 t) of None \<Rightarrow> NaN | Some n \<Rightarrow> to_double (of_int n))
            | None \<Rightarrow>
                if hd t = CHR ''-'' then num_neg (unsigned_literal (tl t))
                else if hd t = CHR ''+'' then unsigned_literal (tl t)
                else unsigned_literal t))"

fun to_number :: "jsval \<Rightarrow> jsnum" where
  "to_number JUndefined = NaN"
| "to_number (JNumber x) = x"
| "to_number (JString s) = str_to_number s"

text \<open>
  The relational operators: two strings are compared as strings (lexicographically by
  character code), everything else as numbers, and a comparison with NaN is false.
\<close>

fun num_lt :: "jsnum \<Rightarrow> jsnum \<Rightarrow> bool" where
  "num_lt (Fin a) (Fin b) = (a < b)"
| "num_lt (Fin a) PInf = True"
| "num_lt NInf (Fin b) = True"
| "num_lt NInf PInf = True"
| "num_lt _ _ = False"

fun num_le :: "jsnum \<Rightarrow> jsnum \<Rightarrow> bool" where
  "num_le (Fin a) (Fin b) = (a \<le> b)"
| "num_le (Fin a) PInf = True"
| "num_le NInf (Fin b) = True"
| "num_le NInf PInf = True"
| "num_le PInf PInf = True"
| "num_le NInf NInf = True"
| "num_le _ _ = False"

fun js_lt :: "jsval \<Rightarrow> jsval \<Rightarrow> bool" where
  "js_lt (JString a) (JString b) = (a < b)"
| "js_lt a b = num_lt (to_number a) (to_number b)"

fun js_le :: "jsval \<Rightarrow> jsval \<Rightarrow> bool" where
  "js_le (JString a) (JString b) = (a \<le> b)"
| "js_le a b = num_le (to_number a) (to_number b)"

definition js_gt :: "jsval \<Rightarrow> jsval \<Rightarrow> bool" where
  "js_gt a b = js_lt b a"

definition js_ge :: "jsval \<Rightarrow> jsval \<Rightarrow> bool" where
  "js_ge a b = js_le b a"

text \<open>
  Subtraction converts both operands to numbers and rounds the difference to a double;
  the difference of two equal infinities is NaN.
\<close>

fun num_sub :: "jsnum \<Rightarrow> jsnum \<Rightarrow> jsnum" where
  "num_sub (Fin a) (Fin b) = to_double (a - b)"
| "num_sub NaN _ = NaN"
| "num_sub _ NaN = NaN"
| "num_sub PInf PInf = NaN"
| "num_sub NInf NInf = NaN"
| "num_sub PInf _ = PInf"
| "num_sub NInf _ = NInf"
| "num_sub (Fin a) PInf = NInf"
| "num_sub (Fin a) NInf = PInf"

definition js_sub :: "jsval \<Rightarrow> jsval \<Rightarrow> jsnum" where
  "js_sub a b = num_sub (to_number a) (to_number b)"

text \<open>Number to string conversion of a non-negative integer, as string concatenation does it.\<close>

definition digit_char :: "nat \<Rightarrow> char" where
  "digit_char n = ''0123456789'' ! n"

fun string_of_nat :: "nat \<Rightarrow> string" where
  "string_of_nat n =
     (if n < 10 then [digit_char n]
      else string_of_nat (n div 10) @ [digit_char (n mod 10)])"

declare string_of_nat.simps [simp del]


section \<open>The store, the tracks and the player's state\<close>

text \<open>
  The constructor receives a reference to the caller's array, whose elements are
  references to frame objects, and writes to these objects. The store maps the address of
  an array to the addresses of its elements, and the address of a frame object to its
  fields. \<open>f_audioRef\<close> is \<open>None\<close> while the object has no \<^verbatim>\<open>audioRef\<close> property.
\<close>

type_synonym addr = nat

record frameobj =
  f_url :: string
  f_begin :: jsval
  f_end :: jsval
  f_audioRef :: "nat option"

text \<open>An entry of the private array \<^verbatim>\<open>audio\<close>: \<open>t_object\<close> is \<open>None\<close> for \<^verbatim>\<open>null\<close>,
  or the handle of the sound the engine created, which is the sound's id.\<close>

record track =
  t_id :: string
  t_url :: string
  t_object :: "string option"

text \<open>
  What the engine reports for a sound: its ready state and play state, and its position
  and duration in whole milliseconds.
\<close>

record sound =
  readyState :: nat
  playState :: nat
  position :: int
  duration :: int

text \<open>
  The callbacks the player hands to \<^verbatim>\<open>window.setTimeout\<close> and \<^verbatim>\<open>window.setInterval\<close>:
  \<^verbatim>\<open>load\<close> (line 110), the re-queued \<^verbatim>\<open>play(from,to,noToggle)\<close> (line 121), the anonymous
  function of \<^verbatim>\<open>run\<close> (line 178) and \<^verbatim>\<open>thread\<close> (line 182).
\<close>

datatype callback = CbLoad | CbReplay int int bool | CbRun | CbThread

datatype timer_kind = Timeout | Interval

record timer =
  tm_id :: nat
  tm_kind :: timer_kind
  tm_delay :: jsnum
  tm_cb :: callback

text \<open>
  The object \<^verbatim>\<open>this\<close> is bound to inside \<^verbatim>\<open>thread\<close>: the player when the call goes
  through \<^verbatim>\<open>delegate(that, thread)\<close>, the global object when \<^verbatim>\<open>thread()\<close> is called as a
  plain function (the file is not in strict mode).
\<close>

datatype this_obj = ThisPlayer | ThisWindow

text \<open>What the player does to its collaborators, in the order it does it.\<close>

datatype event =
    OnReady
  | CreateSound string string
  | StopAll
  | SetPosition string jsval
  | PlaySound string
  | FrameChange this_obj int

datatype error = TypeError | ReferenceError

record state =
  arrays :: "addr \<Rightarrow> addr list"
  objects :: "addr \<Rightarrow> frameobj"
  sounds :: "string \<Rightarrow> sound"
  players :: nat
  timers :: "timer list"
  last_timer :: nat
  window_onFrameChange :: bool
  log :: "event list"
  onFrameChange :: bool
  audioFrames :: addr
  audio :: "track list"
  doneLoading :: bool
  errorsLoading :: bool
  fromFrame :: int
  currentFrame :: int
  toFrame :: int
  threadId :: "nat option"
  threadTimeoutId :: "nat option"

section \<open>The constructor\<close>

text \<open>Lines 54 to 64: the bounds of one frame.\<close>

definition prepare_bounds :: "frameobj \<Rightarrow> frameobj" where
  "prepare_bounds f =
     (let f1 = (if \<not> truthy (f_begin f) \<or> js_lt (f_begin f) (num 0)
                then f\<lparr>f_begin := num (- 1)\<rparr> else f);
          f2 = (if \<not> truthy (f_end f1) \<or> js_lt (f_end f1) (num 0)
                then f1\<lparr>f_end := num (- 1)\<rparr> else f1)
      in if f_end f2 \<noteq> num (- 1) \<and> js_lt (f_end f2) (f_begin f2)
         then f2\<lparr>f_end := f_begin f2, f_begin := f_end f2\<rparr>
         else f2)"

text \<open>Lines 67 to 73: the first index \<open>j\<close> with \<^verbatim>\<open>audio[j].url === url\<close>.\<close>

fun find_audio :: "track list \<Rightarrow> string \<Rightarrow> nat \<Rightarrow> nat option" where
  "find_audio [] u j = None"
| "find_audio (t # ts) u j = (if t_url t = u then Some j else find_audio ts u (Suc j))"

text \<open>Lines 53 to 82: one iteration writes to the frame object at address \<open>r\<close>.\<close>

definition prepare_frame ::
  "nat \<Rightarrow> (addr \<Rightarrow> frameobj) \<times> track list \<Rightarrow> addr \<Rightarrow> (addr \<Rightarrow> frameobj) \<times> track list" where
  "prepare_frame n st r =
     (let objs = fst st; au = snd st; f = prepare_bounds (objs r)
      in case find_audio au (f_url f) 0 of
           Some j \<Rightarrow> (objs(r := f\<lparr>f_audioRef := Some j\<rparr>), au)
         | None \<Rightarrow>
             (objs(r := f\<lparr>f_audioRef := Some (length au)\<rparr>),
              au @ [\<lparr>t_id = ''comic_'' @ string_of_nat n @ ''_'' @ string_of_nat (length au),
                     t_url = f_url f, t_object = None\<rparr>]))"

fun prepare_frames ::
  "nat \<Rightarrow> addr list \<Rightarrow> (addr \<Rightarrow> frameobj) \<times> track list \<Rightarrow> (addr \<Rightarrow> frameobj) \<times> track list" where
  "prepare_frames n [] st = st"
| "prepare_frames n (r # rs) st = prepare_frames n rs (prepare_frame n st r)"

text \<open>
  \<^verbatim>\<open>new ComicPlayer(audioFrames)\<close> in the world \<open>w\<close>, where \<open>a\<close> is the address of the
  caller's array. The closure keeps the parameter itself (\<open>audioFrames := a\<close>), and
  registers its callback with \<^verbatim>\<open>soundManager.onready\<close>.
\<close>

definition ComicPlayer :: "state \<Rightarrow> addr \<Rightarrow> state" where
  "ComicPlayer w a =
     (let n = players w + 1;
          st = prepare_frames n (arrays w a) (objects w, [])
      in w\<lparr>players := n, objects := fst st, onFrameChange := False, audioFrames := a,
            audio := snd st, doneLoading := False, errorsLoading := False,
            fromFrame := - 1, currentFrame := - 1, toFrame := - 1,
            threadId := None, threadTimeoutId := None, log := log w @ [OnReady]\<rparr>)"


section \<open>Timers of the window\<close>

text \<open>
  \<^verbatim>\<open>setTimeout\<close> and \<^verbatim>\<open>setInterval\<close> hand out fresh positive handles from one pool, so a
  handle is always truthy; \<^verbatim>\<open>clearTimeout\<close> and \<^verbatim>\<open>clearInterval\<close> cancel the timer
  with the given handle, of either kind, and ignore \<^verbatim>\<open>null\<close> and handles that are
  not pending.
\<close>

definition set_timer :: "timer_kind \<Rightarrow> callback \<Rightarrow> jsnum \<Rightarrow> state \<Rightarrow> nat \<times> state" where
  "set_timer k cb d s =
     (let i = last_timer s + 1
      in (i, s\<lparr>last_timer := i,
                timers := timers s @ [\<lparr>tm_id = i, tm_kind = k, tm_delay = d, tm_cb = cb\<rparr>]\<rparr>))"

fun clear_timer :: "nat option \<Rightarrow> state \<Rightarrow> state" where
  "clear_timer None s = s"
| "clear_timer (Some i) s = s\<lparr>timers := filter (\<lambda>t. tm_id t \<noteq> i) (timers s)\<rparr>"

section \<open>The scheduler\<close>

definition updateDelay :: rat where
  "updateDelay = 100"

text \<open>Lines 166 to 184.\<close>

definition run :: "jsnum \<Rightarrow> state \<Rightarrow> state" where
  "run delay s =
     (if threadTimeoutId s \<noteq> None then s
      else
        let s1 = (if threadId s \<noteq> None
                  then (clear_timer (threadId s) s)\<lparr>threadId := None\<rparr> else s);
            d1 = (if \<not> truthy (JNumber delay) then Fin updateDelay else delay);
            d2 = (if num_lt (Fin updateDelay) d1 then Fin updateDelay else d1);
            r = set_timer Timeout CbRun d2 s1
        in (snd r)\<lparr>threadTimeoutId := Some (fst r)\<rparr>)"

text \<open>
  \<^verbatim>\<open>audioFrames[k]\<close> followed by a property access: \<^verbatim>\<open>undefined\<close> has no
  properties, so an index outside the array throws.
\<close>

definition frame_at :: "state \<Rightarrow> int \<Rightarrow> error + frameobj" where
  "frame_at s k =
     (let refs = arrays s (audioFrames s)
      in if 0 \<le> k \<and> k < int (length refs) then Inr (objects s (refs ! nat k))
         else Inl TypeError)"

text \<open>\<^verbatim>\<open>audio[ref]\<close>: \<open>None\<close> is \<^verbatim>\<open>undefined\<close>.\<close>

fun audio_at :: "state \<Rightarrow> nat option \<Rightarrow> track option" where
  "audio_at s None = None"
| "audio_at s (Some j) = (if j < length (audio s) then Some (audio s ! j) else None)"

text \<open>
  Lines 149 to 151, 221 to 223 and 238 to 240: look up the track of frame
  \<open>currentFrame\<close>, seek it and start it.
\<close>

definition start_frame :: "state \<Rightarrow> (error \<times> state) + state" where
  "start_frame s =
     (case frame_at s (currentFrame s) of
        Inl e \<Rightarrow> Inl (e, s)
      | Inr f \<Rightarrow>
          (case audio_at s (f_audioRef f) of
             None \<Rightarrow> Inl (TypeError, s)
           | Some t \<Rightarrow>
               (case t_object t of
                  None \<Rightarrow> Inl (TypeError, s)
                | Some h \<Rightarrow>
                    Inr (s\<lparr>log := log s @
                          [SetPosition h (if js_gt (f_begin f) (num 0) then f_begin f else num 1),
                           PlaySound (t_id t)]\<rparr>))))"

text \<open>
  \<^verbatim>\<open>if (typeof this.onFrameChange === 'function') this.onFrameChange(currentFrame)\<close>:
  the handler looked up is the one of the object \<^verbatim>\<open>this\<close> is bound to. The call is
  recorded as an event; the handler is the page's code, and is taken not to call back into
  the player while it runs.
\<close>

definition notify :: "this_obj \<Rightarrow> state \<Rightarrow> state" where
  "notify this s =
     (if (case this of ThisPlayer \<Rightarrow> onFrameChange s | ThisWindow \<Rightarrow> window_onFrameChange s)
      then s\<lparr>log := log s @ [FrameChange this (currentFrame s)]\<rparr>
      else s)"

text \<open>\<^verbatim>\<open>soundManager.stopAll()\<close>.\<close>

definition stopAll :: "state \<Rightarrow> state" where
  "stopAll s = s\<lparr>log := log s @ [StopAll]\<rparr>"

text \<open>Line 188: there is no session to look after.\<close>

definition idle :: "state \<Rightarrow> bool" where
  "idle s \<longleftrightarrow>
     currentFrame s = - 1
     \<or> \<not> (fromFrame s \<le> currentFrame s \<and> currentFrame s \<le> toFrame s)
     \<or> errorsLoading s"

text \<open>
  Lines 200 to 201 and 215 to 216: the frame's \<^verbatim>\<open>begin\<close> is at most \<open>lo\<close>, and its \<^verbatim>\<open>end\<close>
  is at least \<open>pos\<close> or is \<open>-1\<close>. The current frame is tested with \<open>lo = pos + 200\<close>, the next
  one with \<open>lo = pos\<close>.
\<close>

definition within :: "frameobj \<Rightarrow> int \<Rightarrow> int \<Rightarrow> bool" where
  "within f lo pos \<longleftrightarrow>
     js_le (f_begin f) (num (of_int lo))
     \<and> (js_ge (f_end f) (num (of_int pos)) \<or> f_end f = num (- 1))"

text \<open>Lines 203 to 205: the delay until the frame is done, at least 10.\<close>

definition frame_delay :: "frameobj \<Rightarrow> sound \<Rightarrow> jsnum" where
  "frame_delay f sd =
     (let delay = js_sub (if js_gt (f_end f) (num 0) then f_end f else num (of_int (duration sd)))
                    (num (of_int (position sd)))
      in if num_lt delay (Fin 10) then Fin 10 else delay)"

text \<open>Lines 187 to 245.\<close>

definition thread :: "this_obj \<Rightarrow> state \<Rightarrow> (error \<times> state) + state" where
  "thread this s =
     (if idle s
      then Inr (clear_timer (threadId s) (clear_timer (threadId s) s))
      else
        (case frame_at s (currentFrame s) of
          Inl e \<Rightarrow> Inl (e, s)
        | Inr f \<Rightarrow>
        (case audio_at s (f_audioRef f) of
          None \<Rightarrow> Inl (TypeError, s)
        | Some t \<Rightarrow>
        (case t_object t of
          None \<Rightarrow> Inl (TypeError, s)
        | Some h \<Rightarrow>
            (let pos = position (sounds s h) in
            if playState (sounds s h) \<noteq> 0 then
              if within f (pos + 200) pos then
                Inr (run (frame_delay f (sounds s h)) s)
              else if currentFrame s = toFrame s then
                Inr (run (Fin 10) (notify this ((stopAll s)\<lparr>currentFrame := - 1\<rparr>)))
              else
                (case frame_at s (currentFrame s + 1) of
                   Inl e \<Rightarrow> Inl (e, s)
                 | Inr g \<Rightarrow>
                    if f_audioRef g = f_audioRef f \<and> within g pos pos
                    then
                      Inr (run (Fin 10) (notify this (s\<lparr>currentFrame := currentFrame s + 1\<rparr>)))
                    else
                      (case start_frame (stopAll (s\<lparr>currentFrame := currentFrame s + 1\<rparr>)) of
                         Inl es \<Rightarrow> Inl es
                       | Inr s' \<Rightarrow> Inr (run (Fin 10) (notify this s'))))
            else if currentFrame s = toFrame s then
              Inr (notify this ((stopAll s)\<lparr>currentFrame := - 1\<rparr>))
            else
              (case start_frame ((stopAll s)\<lparr>currentFrame := currentFrame s + 1\<rparr>) of
                 Inl es \<Rightarrow> Inl es
               | Inr s' \<Rightarrow> Inr (run (Fin 10) (notify this s'))))))))"

section \<open>The control surface\<close>

text \<open>
  Lines 118 to 155, called as a method of the player (\<^verbatim>\<open>comicPlayer.play(from, to)\<close>), so
  that \<^verbatim>\<open>this\<close> is the player. The frame numbers are integers. \<open>play_range\<close> is lines
  126 to 132 for an array of \<open>n\<close> frames; \<open>restart\<close> is the branch of lines 147 to 151.
\<close>

definition play_range :: "int \<Rightarrow> int \<Rightarrow> int \<Rightarrow> int \<times> int" where
  "play_range from to n =
     (let from1 = (if from > to then to else from);
          to1 = (if from > to then from else to);
          from2 = (if from1 < 0 then 0 else from1);
          to2 = (if to1 \<ge> n then n - 1 else to1)
      in (from2, to2))"

definition play :: "int \<Rightarrow> int \<Rightarrow> bool \<Rightarrow> state \<Rightarrow> (error \<times> state) + state" where
  "play from to noToggle s =
     (if errorsLoading s then Inr s
      else
        let s0 = (if \<not> doneLoading s
                  then snd (set_timer Timeout (CbReplay from to noToggle) (Fin 100) s) else s);
            n = int (length (arrays s (audioFrames s)));
            r = play_range from to n;
            s1 = s0\<lparr>fromFrame := fst r, toFrame := snd r\<rparr>;
            currentAudio =
              (if 0 \<le> currentFrame s1 \<and> currentFrame s1 < n
               then audio_at s1 (f_audioRef (objects s1 (arrays s1 (audioFrames s1) ! nat (currentFrame s1))))
               else None);
            restart =
              (case start_frame ((stopAll s1)\<lparr>currentFrame := fst r\<rparr>) of
                 Inl es \<Rightarrow> Inl es
               | Inr s' \<Rightarrow> Inr (run (Fin 0) (notify ThisPlayer s')))
        in case currentAudio of
             None \<Rightarrow> restart
           | Some t \<Rightarrow>
               (case t_object t of
                  None \<Rightarrow> Inl (TypeError, s1)
                | Some h \<Rightarrow>
                    if playState (sounds s1 h) \<noteq> 0 \<and> \<not> noToggle
                    then Inr (run (Fin 0) (notify ThisPlayer ((stopAll s1)\<lparr>currentFrame := - 1\<rparr>)))
                    else restart))"

text \<open>Lines 156 to 159.\<close>

definition stop :: "state \<Rightarrow> state" where
  "stop s = (stopAll s)\<lparr>currentFrame := - 1\<rparr>"

section \<open>Loading\<close>

text \<open>Lines 89 to 107: the loop body for \<^verbatim>\<open>audio[i]\<close>. The sound that
  \<^verbatim>\<open>soundManager.createSound\<close> returns is known by its id.\<close>

definition load_track :: "nat \<Rightarrow> state \<Rightarrow> state" where
  "load_track i s =
     (let t = audio s ! i
      in case t_object t of
           None \<Rightarrow>
             s\<lparr>audio := (audio s)[i := t\<lparr>t_object := Some (t_id t)\<rparr>],
               log := log s @ [CreateSound (t_id t) (t_url t)]\<rparr>
         | Some h \<Rightarrow>
             (let r = readyState (sounds s h)
              in if r = 0 \<or> r = 1 then s\<lparr>doneLoading := False\<rparr>
                 else if r = 3 then s\<lparr>errorsLoading := True\<rparr>
                 else s))"

text \<open>Lines 86 to 113.\<close>

definition load :: "state \<Rightarrow> state" where
  "load s =
     (let s1 = fold load_track [0..<length (audio s)] (s\<lparr>doneLoading := True\<rparr>)
      in if \<not> doneLoading s1 then snd (set_timer Timeout CbLoad (Fin 50) s1)
         else run (Fin 0) s1)"

text \<open>Lines 254 to 258: the callback registered with \<^verbatim>\<open>soundManager.onready\<close>.\<close>

definition onready :: "bool \<Rightarrow> state \<Rightarrow> state" where
  "onready success s = (if success then load s else s)"

section \<open>The event loop\<close>

text \<open>
  The window fires the pending timer with handle \<open>i\<close>: a timeout is removed from the
  pending timers before its callback runs, an interval stays. The callback of \<^verbatim>\<open>run\<close>
  (lines 178 to 183) calls \<^verbatim>\<open>thread()\<close> as a plain function and then starts the
  interval (\<open>start_interval\<close>, line 182). The re-queued call of line 122 names an
  identifier \<^verbatim>\<open>play\<close> that the file does not declare.
\<close>

definition start_interval :: "state \<Rightarrow> state" where
  "start_interval s =
     (let r = set_timer Interval CbThread (Fin updateDelay) s
      in (snd r)\<lparr>threadId := Some (fst r)\<rparr>)"

definition fire :: "nat \<Rightarrow> state \<Rightarrow> (error \<times> state) + state" where
  "fire i s =
     (case find (\<lambda>t. tm_id t = i) (timers s) of
        None \<Rightarrow> Inr s
      | Some t \<Rightarrow>
          let s1 = (if tm_kind t = Timeout
                    then s\<lparr>timers := filter (\<lambda>t. tm_id t \<noteq> i) (timers s)\<rparr> else s)
          in (case tm_cb t of
               CbLoad \<Rightarrow> Inr (load s1)
             | CbReplay from to noToggle \<Rightarrow> Inl (ReferenceError, s1)
             | CbThread \<Rightarrow> thread ThisPlayer s1
             | CbRun \<Rightarrow>
                 (let s2 = s1\<lparr>threadTimeoutId := None\<rparr>
                  in if threadId s2 \<noteq> None then Inr s2
                     else (case thread ThisWindow s2 of
                             Inl es \<Rightarrow> Inl es
                           | Inr s3 \<Rightarrow> Inr (start_interval s3)))))"

text \<open>The state a call leaves behind, whether it returned or threw.\<close>

fun after :: "(error \<times> state) + state \<Rightarrow> state" where
  "after (Inl es) = snd es"
| "after (Inr s) = s"

section \<open>The player in its environment\<close>

text \<open>
  Everything that can happen to a constructed player: the page calls \<^verbatim>\<open>play\<close> or
  \<^verbatim>\<open>stop\<close>, the window fires a pending timer, the engine calls the \<^verbatim>\<open>onready\<close>
  callback, the engine reports new values for its sounds, the caller writes to its array
  or to the frame objects, and the page sets or removes a handler \<^verbatim>\<open>onFrameChange\<close> of
  the player or of the window. A call that throws leaves the state it had reached.
\<close>

datatype action =
    Play int int bool
  | Stop
  | Fire nat
  | SoundManagerReady bool
  | Engine "string \<Rightarrow> sound"
  | Caller "addr \<Rightarrow> addr list" "addr \<Rightarrow> frameobj"
  | Handler bool
  | WindowHandler bool

fun step :: "action \<Rightarrow> state \<Rightarrow> state" where
  "step (Play from to noToggle) s = after (play from to noToggle s)"
| "step Stop s = stop s"
| "step (Fire i) s = after (fire i s)"
| "step (SoundManagerReady success) s = onready success s"
| "step (Engine snds) s = s\<lparr>sounds := snds\<rparr>"
| "step (Caller arrs objs) s = s\<lparr>arrays := arrs, objects := objs\<rparr>"
| "step (Handler b) s = s\<lparr>onFrameChange := b\<rparr>"
| "step (WindowHandler b) s = s\<lparr>window_onFrameChange := b\<rparr>"

text \<open>The pending precise wake-ups: the timers set by \<^verbatim>\<open>run\<close>.\<close>

definition precise_pending :: "state \<Rightarrow> timer list" where
  "precise_pending s = filter (\<lambda>t. tm_cb t = CbRun) (timers s)"

text \<open>
  The states a player can be in: constructed in a world with no precise wake-up of
  its own pending, then any sequence of actions.
\<close>

inductive reachable :: "state \<Rightarrow> bool" where
  constructed: "precise_pending w = [] \<Longrightarrow> reachable (ComicPlayer w a)"
| stepped: "reachable s \<Longrightarrow> reachable (step act s)"

text \<open>
  What \<^verbatim>\<open>threadTimeoutId\<close> is for: while it is \<^verbatim>\<open>null\<close> no precise wake-up is
  pending, there is never more than one, and a precise wake-up is a timeout.
\<close>

definition wake_inv :: "state \<Rightarrow> bool" where
  "wake_inv s \<longleftrightarrow>
     (threadTimeoutId s = None \<longrightarrow> precise_pending s = [])
     \<and> length (precise_pending s) \<le> 1
     \<and> (\<forall>t \<in> set (precise_pending s). tm_kind t = Timeout)"

section \<open>Notions used in the statements\<close>

text \<open>
  A tick finds a session to look after: \<open>f\<close> is the current frame, \<open>t\<close> its track and
  \<open>h\<close> the handle of the track's sound.
\<close>

definition active_on :: "state \<Rightarrow> frameobj \<Rightarrow> track \<Rightarrow> string \<Rightarrow> bool" where
  "active_on s f t h \<longleftrightarrow>
     \<not> idle s \<and> frame_at s (currentFrame s) = Inr f
     \<and> audio_at s (f_audioRef f) = Some t \<and> t_object t = Some h"

text \<open>Lines 54 to 58 for one bound: what is falsy or negative becomes \<open>-1\<close>.\<close>

definition norm_bound :: "jsval \<Rightarrow> jsval" where
  "norm_bound v = (if \<not> truthy v \<or> js_lt v (num 0) then num (- 1) else v)"

text \<open>A bound that is a number or absent, as opposed to a string.\<close>

fun numeric :: "jsval \<Rightarrow> bool" where
  "numeric (JString s) = False"
| "numeric v = True"

text \<open>
  The bounds of a frame are in order: one of them is the sentinel \<open>-1\<close>, or \<open>begin\<close> is at
  most \<open>end\<close> as milliseconds, which is how the scheduler reads them against the position.
\<close>

definition bound_repaired :: "frameobj \<Rightarrow> bool" where
  "bound_repaired f \<longleftrightarrow>
     f_begin f = num (- 1) \<or> f_end f = num (- 1)
     \<or> num_le (to_number (f_begin f)) (to_number (f_end f))"

text \<open>
  The loop invariant of the constructor. \<open>orig\<close> is the store before the call and \<open>D\<close>
  the addresses of the frame objects visited so far: a visited object has the bounds of
  lines 54 to 64, and an \<^verbatim>\<open>audioRef\<close> that indexes a track with its url; every other
  object is untouched.
\<close>

definition visited ::
  "(addr \<Rightarrow> frameobj) \<Rightarrow> addr set \<Rightarrow> (addr \<Rightarrow> frameobj) \<times> track list \<Rightarrow> bool" where
  "visited orig D st \<longleftrightarrow>
     (\<forall>r \<in> D. \<exists>j. fst st r = (prepare_bounds (orig r))\<lparr>f_audioRef := Some j\<rparr>
                   \<and> j < length (snd st) \<and> t_url (snd st ! j) = f_url (orig r))
     \<and> (\<forall>r. r \<notin> D \<longrightarrow> fst st r = orig r)"

text \<open>The session's invariant: idle, or the current frame lies in the range.\<close>

definition session_ok :: "state \<Rightarrow> bool" where
  "session_ok s \<longleftrightarrow>
     currentFrame s = - 1 \<or> (fromFrame s \<le> currentFrame s \<and> currentFrame s \<le> toFrame s)"

section \<open>Example worlds\<close>

definition blank_frame :: frameobj where
  "blank_frame = \<lparr>f_url = [], f_begin = JUndefined, f_end = JUndefined, f_audioRef = None\<rparr>"

definition silent :: sound where
  "silent = \<lparr>readyState = 0, playState = 0, position = 0, duration = 0\<rparr>"

text \<open>The frame objects \<open>fs\<close> at the addresses \<open>1, 2, \<dots>\<close>.\<close>

definition frame_table :: "frameobj list \<Rightarrow> addr \<Rightarrow> frameobj" where
  "frame_table fs r = (if 0 < r \<and> r \<le> length fs then fs ! (r - 1) else blank_frame)"

text \<open>A world before any player exists: the caller's array is at address 0.\<close>

definition world :: "addr list \<Rightarrow> (addr \<Rightarrow> frameobj) \<Rightarrow> state" where
  "world refs objs =
     \<lparr>arrays = (\<lambda>a. if a = 0 then refs else []), objects = objs, sounds = (\<lambda>h. silent),
      players = 0, timers = [], last_timer = 0, window_onFrameChange = False, log = [],
      onFrameChange = False, audioFrames = 0, audio = [], doneLoading = False,
      errorsLoading = False, fromFrame = - 1, currentFrame = - 1, toFrame = - 1,
      threadId = None, threadTimeoutId = None\<rparr>"

text \<open>The example of the header comment, lines 14 to 22.\<close>

definition header_frames :: "frameobj list" where
  "header_frames =
     [\<lparr>f_url = ''soundUrl1.mp3'', f_begin = JString ''0'', f_end = JString ''5000'', f_audioRef = None\<rparr>,
      \<lparr>f_url = ''soundUrl1.mp3'', f_begin = JString ''5000'', f_end = JString ''10000'', f_audioRef = None\<rparr>,
      \<lparr>f_url = ''soundUrl1.mp3'', f_begin = JString ''15000'', f_end = JString ''20000'', f_audioRef = None\<rparr>,
      \<lparr>f_url = ''soundUrl2.mp3'', f_begin = JString ''2000'', f_end = JString ''8500'', f_audioRef = None\<rparr>,
      \<lparr>f_url = ''soundUrl3.mp3'', f_begin = JString ''1000'', f_end = JUndefined, f_audioRef = None\<rparr>,
      \<lparr>f_url = ''soundUrl3.mp3'', f_begin = JUndefined, f_end = JString ''9000'', f_audioRef = None\<rparr>,
      \<lparr>f_url = ''soundUrl3.mp3'', f_begin = JUndefined, f_end = JUndefined, f_audioRef = None\<rparr>]"

definition header_world :: state where
  "header_world = world [1, 2, 3, 4, 5, 6, 7] (frame_table header_frames)"

text \<open>
  A scenario with numeric bounds: two frames that follow each other on track A, and a
  frame on track B whose bounds the caller gave the wrong way round. The frames are short,
  so that the runs below move the position by what plays between two timers.
\<close>

definition scenario_frames :: "frameobj list" where
  "scenario_frames =
     [\<lparr>f_url = ''A'', f_begin = num 0, f_end = num 250, f_audioRef = None\<rparr>,
      \<lparr>f_url = ''A'', f_begin = num 250, f_end = num 500, f_audioRef = None\<rparr>,
      \<lparr>f_url = ''B'', f_begin = num 2150, f_end = num 2000, f_audioRef = None\<rparr>]"

definition scenario_world :: state where
  "scenario_world = world [1, 2, 3] (frame_table scenario_frames)"

text \<open>What the engine reports: every sound ready (ready state 2), with play state \<open>p\<close>
  at position \<open>pos\<close>.\<close>

definition reporting :: "nat \<Rightarrow> int \<Rightarrow> string \<Rightarrow> sound" where
  "reporting p pos = (\<lambda>h. \<lparr>readyState = 2, playState = p, position = pos, duration = 20000\<rparr>)"

text \<open>A sequence of actions, from left to right.\<close>

definition exec :: "action list \<Rightarrow> state \<Rightarrow> state" where
  "exec acts s = fold step acts s"

text \<open>
  The player of the scenario: constructed, the engine has called the \<^verbatim>\<open>onready\<close>
  callback, and the page has registered a handler \<^verbatim>\<open>onFrameChange\<close>.
\<close>

definition scenario_player :: state where
  "scenario_player =
     exec [SoundManagerReady True, Handler True] (ComicPlayer scenario_world 0)"

text \<open>
  \<^verbatim>\<open>play(0, 2)\<close>; the wake-up set at loading (handle 1) fires at position 80 and its tick,
  inside frame 0, sets a wake-up (handle 2, after 100) before the callback starts the
  interval (handle 3, every 100); wake-up 2 fires and finds the interval running.
\<close>

definition playing_0_2 :: state where
  "playing_0_2 =
     exec [Play 0 2 False, Engine (reporting 1 80), Fire 1, Fire 2] scenario_player"

text \<open>
  Then the interval ticks at position 180, still inside frame 0 (which ends at 250), and
  sets a wake-up (handle 4) after 70, by which the engine has played on to position 251,
  inside frame 1.
\<close>

definition crossing_0_1 :: state where
  "crossing_0_1 =
     exec [Engine (reporting 1 180), Fire 3, Engine (reporting 1 251)] playing_0_2"

text \<open>
  \<^verbatim>\<open>play(2, 2)\<close>, the single frame 2 on track B from 2000 to 2150, 80 milliseconds
  after the call: the wake-up set at loading (handle 1) is due and the engine reports
  position 2080.
\<close>

definition waking_2_2 :: state where
  "waking_2_2 = exec [Play 2 2 False, Engine (reporting 1 2080)] scenario_player"

text \<open>
  Wake-up 1 has fired: its tick has set a wake-up (handle 2, after 70) and its callback has
  started the interval (handle 3). Wake-up 2 is due, and the engine has played on to
  position 2151, past the frame's end.
\<close>

definition skipping_2_2 :: state where
  "skipping_2_2 = exec [Fire 1, Engine (reporting 1 2151)] waking_2_2"

text \<open>
  \<^verbatim>\<open>play(2, 2)\<close>, the single frame 2 on track B from 2000 to 2150: wake-up 1 fires at
  position 2080 and its tick sets a wake-up (handle 2, after 70) before the callback
  starts the interval (handle 3); wake-up 2 fires and finds the interval running; when
  the interval is due the engine has played on to position 2180.
\<close>

definition ending_2_2 :: state where
  "ending_2_2 =
     exec [Play 2 2 False, Engine (reporting 1 2080), Fire 1, Fire 2, Engine (reporting 1 2180)]
       scenario_player"

section \<open>Numbers\<close>

text \<open>
  An integer of magnitude at most \<open>2 ^ 53\<close> is a double, so rounding leaves it as it is:
  frame numbers, positions and delays in milliseconds are computed exactly.
\<close>

lemma bit_length_bounds:
  assumes "0 < n"
  shows "1 \<le> bit_length n \<and> 2 ^ nat (bit_length n - 1) \<le> n \<and> n < 2 ^ nat (bit_length n)"
  using assms
proof (induction n rule: bit_length.induct)
  case (1 n)
  show ?case
  proof (cases "n = 1")
    case True
    then show ?thesis by (simp add: bit_length.simps [of 1] bit_length.simps [of 0])
  next
    case False
    with 1(2) have h: "0 < n div 2" by simp
    define b where "b = bit_length (n div 2)"
    from 1(1) [OF _ h] 1(2)
    have ih: "1 \<le> b" "2 ^ nat (b - 1) \<le> n div 2" "n div 2 < 2 ^ nat b"
      by (simp_all add: b_def)
    have bl: "bit_length n = 1 + b"
      using 1(2) by (simp add: bit_length.simps [of n] b_def)
    from ih(1) have nb: "nat b = Suc (nat (b - 1))" "nat (1 + b) = Suc (nat b)"
      by simp_all
    have "2 * 2 ^ nat (b - 1) \<le> n" using ih(2) by linarith
    then have "2 ^ nat b \<le> n" by (simp add: nb(1))
    moreover have "n < 2 * 2 ^ nat b" using ih(3) by linarith
    ultimately show ?thesis using ih(1) by (simp add: bl nb(2))
  qed
qed

lemma round_half_even_int [simp]: "round_half_even (of_int k) = k"
  by (simp add: round_half_even_def)

lemma to_double_positive:
  assumes "0 < n" "n \<le> 2 ^ 53"
  shows "to_double (of_int n) = Fin (of_int n)"
proof -
  define c where "c = bit_length n - 1"
  from bit_length_bounds [OF assms(1)]
  have c: "0 \<le> c" "2 ^ nat c \<le> n" "n < 2 ^ nat (c + 1)"
    by (simp_all add: c_def)
  have b1: "bit_length 1 = 1"
    by (simp add: bit_length.simps [of 1] bit_length.simps [of 0])
  have le: "power_int 2 c \<le> (of_int n :: rat)"
  proof -
    have "(of_int (2 ^ nat c) :: rat) \<le> of_int n" using c(2) by (simp only: of_int_le_iff)
    then show ?thesis using c(1) by (simp add: power_int_def)
  qed
  have bin: "binade (of_int n) = c"
    using le by (simp add: binade_def quotient_of_int b1 c_def [symmetric] Let_def)
  have c53: "c \<le> 53"
  proof (rule ccontr)
    assume "\<not> c \<le> 53"
    then have "54 \<le> nat c" by simp
    then have "(2::int) ^ 54 \<le> 2 ^ nat c" by (intro power_increasing) simp_all
    with c(2) assms(2) show False by simp
  qed
  define u :: rat where "u = power_int 2 (c - 52)"
  have u0: "u \<noteq> 0" by (simp add: u_def)
  have ex: "\<exists>k. (of_int n :: rat) / u = of_int k"
  proof (cases "c \<le> 52")
    case True
    then have "u = 1 / 2 ^ nat (52 - c)"
      by (cases "c = 52") (simp_all add: u_def power_int_def power_one_over)
    then have "(of_int n :: rat) / u = of_int (n * 2 ^ nat (52 - c))"
      by simp
    then show ?thesis ..
  next
    case False
    with c53 have c_eq: "c = 53" by simp
    with c(2) assms(2) have n: "n = 2 ^ 53" by simp
    have "u = 2" by (simp add: u_def c_eq)
    then have "(of_int n :: rat) / u = of_int (2 ^ 52)" by (simp add: n)
    then show ?thesis ..
  qed
  then obtain k where k: "(of_int n :: rat) / u = of_int k" ..
  have "of_int (round_half_even (of_int n / u)) * u = (of_int n / u) * u"
    unfolding k by simp
  then have r: "of_int (round_half_even (of_int n / u)) * u = (of_int n :: rat)"
    using u0 by simp
  have small: "\<not> power_int 2 1024 \<le> (of_int n :: rat)"
  proof -
    have "(of_int n :: rat) \<le> of_int (2 ^ 53)" using assms(2) by (simp only: of_int_le_iff)
    moreover have "(of_int (2 ^ 53) :: rat) < power_int 2 1024" by (simp add: power_int_def)
    ultimately show ?thesis by linarith
  qed
  have m: "max c (- 1022) = c" using c(1) by simp
  from assms(1) have pos: "(of_int n :: rat) \<noteq> 0" "\<bar>of_int n :: rat\<bar> = of_int n"
    "\<not> (of_int n :: rat) < 0"
    by simp_all
  show ?thesis
    unfolding to_double_def Let_def pos(2) bin m u_def [symmetric] r
    using pos(1,3) small by simp
qed

lemma to_double_neg: "to_double (- q) = num_neg (to_double q)"
  by (simp add: to_double_def Let_def)

lemma to_double_int:
  assumes "\<bar>n\<bar> \<le> 2 ^ 53"
  shows "to_double (of_int n) = Fin (of_int n)"
proof -
  consider "n = 0" | "0 < n" | "n < 0" by linarith
  then show ?thesis
  proof cases
    case 1
    then show ?thesis by (simp add: to_double_def)
  next
    case 2
    with assms show ?thesis by (simp add: to_double_positive)
  next
    case 3
    with assms have "to_double (of_int (- n)) = Fin (of_int (- n))"
      by (intro to_double_positive) simp_all
    then have "num_neg (to_double (of_int n)) = Fin (- of_int n)"
      by (simp add: to_double_neg)
    then show ?thesis by (cases "to_double (of_int n)") simp_all
  qed
qed

lemma to_double_numeral [simp]:
  "numeral k \<le> (9007199254740992::int) \<Longrightarrow> to_double (numeral k) = Fin (numeral k)"
  "numeral k \<le> (9007199254740992::int) \<Longrightarrow> to_double (- numeral k) = Fin (- numeral k)"
  "to_double 0 = Fin 0" "to_double 1 = Fin 1" "to_double (- 1) = Fin (- 1)"
  using to_double_int [of "numeral k"] to_double_int [of "- numeral k"]
    to_double_int [of 0] to_double_int [of 1] to_double_int [of "- 1"]
  by simp_all

text \<open>The equations that convert a string literal to a number.\<close>

lemmas str_evals = str_to_number_def trim_def is_space_def radix_of_def unsigned_literal_def
      decimal_literal_def is_digit_def digit_of_def exponent_part_def digits_def Let_def

text \<open>
  Some conversions: white space around a literal, an exponent, a hexadecimal literal, a
  string that is no literal, an infinity and the empty string; then a fraction, and two
  literals that are not doubles, \<open>2 ^ 53 + 1\<close> and one tenth, which are rounded.
\<close>

lemma str_to_number_examples:
  "str_to_number [CHR '' '', CHR ''1'', CHR ''2'', CHR '' ''] = Fin 12"
  "str_to_number ''1e3'' = Fin 1000"
  "str_to_number ''0x1F'' = Fin 31"
  "str_to_number ''12px'' = NaN"
  "str_to_number ''-Infinity'' = NInf"
  "str_to_number [] = Fin 0"
  by (simp_all add: str_evals power_int_def)

lemma str_to_number_fraction: "str_to_number ''1.5'' = Fin (3 / 2)"
  by code_simp

lemma str_to_number_rounded:
  "str_to_number ''9007199254740993'' = Fin 9007199254740992"
  by code_simp

lemma str_to_number_tenth:
  "str_to_number ''0.1'' = Fin (3602879701896397 / 36028797018963968)"
  by code_simp

section \<open>The constructor: bounds, tracks and the caller's array\<close>

text \<open>
  The comparison of line 60 cannot hold both ways, so preparing the bounds of a frame a
  second time changes nothing. This matters where the caller's array holds the same
  object twice.
\<close>

lemma num_lt_asym: "num_lt a b \<Longrightarrow> \<not> num_lt b a"
  by (cases a; cases b) auto

lemma js_lt_asym: "js_lt a b \<Longrightarrow> \<not> js_lt b a"
  by (cases a; cases b) (auto dest: num_lt_asym)

lemma prepare_bounds_url [simp]: "f_url (prepare_bounds f) = f_url f"
  by (simp add: prepare_bounds_def Let_def)

lemma prepare_bounds_audioRef [simp]: "f_audioRef (prepare_bounds f) = f_audioRef f"
  by (simp add: prepare_bounds_def Let_def)

lemma prepare_bounds_update:
  "prepare_bounds (f\<lparr>f_audioRef := x\<rparr>) = (prepare_bounds f)\<lparr>f_audioRef := x\<rparr>"
  by (simp add: prepare_bounds_def Let_def)

lemma norm_bound_idem: "norm_bound (norm_bound v) = norm_bound v"
  by (simp add: norm_bound_def)

lemma norm_bound_unbounded [simp]: "norm_bound (num (- 1)) = num (- 1)"
  by (simp add: norm_bound_def)

lemma prepare_bounds_alt:
  "prepare_bounds f =
     (if norm_bound (f_end f) \<noteq> num (- 1) \<and> js_lt (norm_bound (f_end f)) (norm_bound (f_begin f))
      then f\<lparr>f_begin := norm_bound (f_end f), f_end := norm_bound (f_begin f)\<rparr>
      else f\<lparr>f_begin := norm_bound (f_begin f), f_end := norm_bound (f_end f)\<rparr>)"
  by (auto simp add: prepare_bounds_def norm_bound_def Let_def)

lemma prepare_bounds_idem: "prepare_bounds (prepare_bounds f) = prepare_bounds f"
  by (auto simp add: prepare_bounds_alt norm_bound_idem dest: js_lt_asym)

text \<open>The inner loop finds an index of \<^verbatim>\<open>audio\<close> whose track has the url, or none has it.\<close>

lemma find_audio_Some:
  "find_audio au u k = Some j \<Longrightarrow> k \<le> j \<and> j - k < length au \<and> t_url (au ! (j - k)) = u"
proof (induction au arbitrary: k)
  case Nil
  then show ?case by simp
next
  case (Cons t ts)
  show ?case
  proof (cases "t_url t = u")
    case True
    with Cons.prems show ?thesis by simp
  next
    case False
    with Cons.prems have "find_audio ts u (Suc k) = Some j" by simp
    from Cons.IH [OF this]
    have le: "Suc k \<le> j" and lt: "j - Suc k < length ts" and u: "t_url (ts ! (j - Suc k)) = u"
      by simp_all
    from le have "j - k = Suc (j - Suc k)" by arith
    with le lt u show ?thesis by simp
  qed
qed

lemma find_audio_None:
  "find_audio au u k = None \<Longrightarrow> \<forall>t \<in> set au. t_url t \<noteq> u"
  by (induction au arbitrary: k) (auto split: if_splits)

text \<open>One iteration of the outer loop keeps the invariant, and so does the loop.\<close>

lemma prepare_frame_eq:
  assumes pb: "prepare_bounds (objs r) = (prepare_bounds (orig r))\<lparr>f_audioRef := x\<rparr>"
  shows "prepare_frame n (objs, au) r =
     (case find_audio au (f_url (orig r)) 0 of
        Some j \<Rightarrow> (objs(r := (prepare_bounds (orig r))\<lparr>f_audioRef := Some j\<rparr>), au)
      | None \<Rightarrow>
          (objs(r := (prepare_bounds (orig r))\<lparr>f_audioRef := Some (length au)\<rparr>),
           au @ [\<lparr>t_id = ''comic_'' @ string_of_nat n @ ''_'' @ string_of_nat (length au),
                  t_url = f_url (orig r), t_object = None\<rparr>]))"
proof -
  have "f_url (prepare_bounds (objs r)) = f_url (orig r)"
    unfolding pb by simp
  then show ?thesis
    unfolding prepare_frame_def Let_def fst_conv snd_conv pb
    by (simp split: option.split)
qed

lemma visited_prepare_frame:
  assumes "visited orig D st"
  shows "visited orig (insert r D) (prepare_frame n st r)"
proof -
  obtain objs au where st: "st = (objs, au)" by (cases st)
  from assms have D: "\<And>q. q \<in> D \<Longrightarrow>
      \<exists>j. objs q = (prepare_bounds (orig q))\<lparr>f_audioRef := Some j\<rparr>
          \<and> j < length au \<and> t_url (au ! j) = f_url (orig q)"
    and nD: "\<And>q. q \<notin> D \<Longrightarrow> objs q = orig q"
    unfolding visited_def st by simp_all
  have "\<exists>x. prepare_bounds (objs r) = (prepare_bounds (orig r))\<lparr>f_audioRef := x\<rparr>"
  proof (cases "r \<in> D")
    case True
    from D [OF this] obtain j where "objs r = (prepare_bounds (orig r))\<lparr>f_audioRef := Some j\<rparr>"
      by blast
    then have "prepare_bounds (objs r) = (prepare_bounds (orig r))\<lparr>f_audioRef := Some j\<rparr>"
      by (simp only: prepare_bounds_update prepare_bounds_idem)
    then show ?thesis ..
  next
    case False
    then have "prepare_bounds (objs r) = (prepare_bounds (orig r))\<lparr>f_audioRef := f_audioRef (orig r)\<rparr>"
      by (simp add: nD)
    then show ?thesis ..
  qed
  then obtain x where pb: "prepare_bounds (objs r) = (prepare_bounds (orig r))\<lparr>f_audioRef := x\<rparr>" ..
  define au' where "au' = snd (prepare_frame n st r)"
  define objs' where "objs' = fst (prepare_frame n st r)"
  note eq = prepare_frame_eq [where objs = objs and orig = orig and r = r and n = n and au = au, OF pb]
  have "\<exists>j zs. objs' = objs(r := (prepare_bounds (orig r))\<lparr>f_audioRef := Some j\<rparr>)
          \<and> j < length au' \<and> t_url (au' ! j) = f_url (orig r) \<and> au' = au @ zs"
  proof (cases "find_audio au (f_url (orig r)) 0")
    case None
    let ?t = "\<lparr>t_id = ''comic_'' @ string_of_nat n @ ''_'' @ string_of_nat (length au),
                  t_url = f_url (orig r), t_object = None\<rparr>"
    from None eq have "prepare_frame n st r =
        (objs(r := (prepare_bounds (orig r))\<lparr>f_audioRef := Some (length au)\<rparr>), au @ [?t])"
      unfolding st by simp
    then have "objs' = objs(r := (prepare_bounds (orig r))\<lparr>f_audioRef := Some (length au)\<rparr>)"
      and "au' = au @ [?t]"
      unfolding objs'_def au'_def by simp_all
    moreover have "length au < length (au @ [?t])" "t_url ((au @ [?t]) ! length au) = f_url (orig r)"
      by simp_all
    ultimately show ?thesis by blast
  next
    case (Some j)
    from find_audio_Some [OF this] have j: "j < length au" "t_url (au ! j) = f_url (orig r)"
      by simp_all
    from Some eq have "prepare_frame n st r =
        (objs(r := (prepare_bounds (orig r))\<lparr>f_audioRef := Some j\<rparr>), au)"
      unfolding st by simp
    then have o: "objs' = objs(r := (prepare_bounds (orig r))\<lparr>f_audioRef := Some j\<rparr>)"
      and a: "au' = au @ []"
      unfolding objs'_def au'_def by simp_all
    from a j have "j < length au'" "t_url (au' ! j) = f_url (orig r)"
      by simp_all
    with o a show ?thesis by blast
  qed
  then obtain j zs where objs': "objs' = objs(r := (prepare_bounds (orig r))\<lparr>f_audioRef := Some j\<rparr>)"
    and j: "j < length au'" "t_url (au' ! j) = f_url (orig r)" and au': "au' = au @ zs"
    by blast
  have "\<exists>i. objs' q = (prepare_bounds (orig q))\<lparr>f_audioRef := Some i\<rparr>
          \<and> i < length au' \<and> t_url (au' ! i) = f_url (orig q)" if q: "q \<in> insert r D" for q
  proof (cases "q = r")
    case True
    then have "objs' q = (prepare_bounds (orig q))\<lparr>f_audioRef := Some j\<rparr>"
      by (simp add: objs')
    with j True show ?thesis by blast
  next
    case False
    with q have "q \<in> D" by simp
    from D [OF this] obtain i where i: "objs q = (prepare_bounds (orig q))\<lparr>f_audioRef := Some i\<rparr>"
      "i < length au" "t_url (au ! i) = f_url (orig q)" by blast
    from False i have "objs' q = (prepare_bounds (orig q))\<lparr>f_audioRef := Some i\<rparr>"
      by (simp add: objs')
    moreover from i have "i < length au'" "t_url (au' ! i) = f_url (orig q)"
      by (simp_all add: au' nth_append)
    ultimately show ?thesis by blast
  qed
  moreover have "objs' q = orig q" if "q \<notin> insert r D" for q
    using that by (simp add: objs' nD)
  ultimately show ?thesis
    unfolding visited_def objs'_def au'_def by blast
qed

lemma visited_prepare_frames:
  "visited orig D st \<Longrightarrow> visited orig (D \<union> set rs) (prepare_frames n rs st)"
proof (induction rs arbitrary: D st)
  case Nil
  then show ?case by simp
next
  case (Cons r rs)
  from visited_prepare_frame [OF Cons.prems, of r n]
  have "visited orig (insert r D \<union> set rs) (prepare_frames n rs (prepare_frame n st r))"
    by (rule Cons.IH)
  then show ?case by simp
qed

lemma ComicPlayer_visited:
  "visited (objects w) (set (arrays w a)) (objects (ComicPlayer w a), audio (ComicPlayer w a))"
proof -
  have "visited (objects w) {} (objects w, [])"
    by (simp add: visited_def)
  from visited_prepare_frames [OF this, of "arrays w a" "players w + 1"]
  show ?thesis
    by (simp add: ComicPlayer_def Let_def)
qed

lemma ComicPlayer_fields:
  "audioFrames (ComicPlayer w a) = a" "arrays (ComicPlayer w a) = arrays w"
  by (simp_all add: ComicPlayer_def Let_def)

lemma ComicPlayer_bounds:
  assumes "r \<in> set (arrays w a)"
  shows "f_begin (objects (ComicPlayer w a) r) = f_begin (prepare_bounds (objects w r))"
    and "f_end (objects (ComicPlayer w a) r) = f_end (prepare_bounds (objects w r))"
  using ComicPlayer_visited [of w a] assms unfolding visited_def by auto

subsection \<open>Bounds\<close>

text \<open>
  Each bound alone: what is absent, falsy or negative becomes \<open>-1\<close>, and for bounds that
  are numbers or absent the result is \<open>-1\<close> or a number greater than 0.
\<close>

lemma norm_bound_numeric:
  assumes "numeric v"
  shows "norm_bound v = num (- 1) \<or> (\<exists>x. norm_bound v = JNumber x \<and> num_lt (Fin 0) x)"
proof (cases v)
  case JUndefined
  then show ?thesis by (simp add: norm_bound_def)
next
  case (JNumber x)
  then show ?thesis by (cases x) (auto simp: norm_bound_def)
next
  case (JString s)
  with assms show ?thesis by simp
qed

text \<open>
  With bounds that are numbers or absent, lines 54 to 64 leave every frame with
  \<open>begin = -1\<close>, \<open>end = -1\<close> or \<open>begin \<le> end\<close>.
\<close>

lemma prepare_bounds_numeric:
  assumes "numeric (f_begin f)" "numeric (f_end f)"
  shows "bound_repaired (prepare_bounds f)"
proof -
  have le: "num_le x y" if "\<not> num_lt y x" "num_lt (Fin 0) x" "num_lt (Fin 0) y" for x y
    using that by (cases x; cases y) auto
  have lt: "num_le x y" if "num_lt x y" for x y
    using that by (cases x; cases y) auto
  from norm_bound_numeric [OF assms(1)] norm_bound_numeric [OF assms(2)]
  show ?thesis
    by (auto simp: prepare_bounds_alt bound_repaired_def intro: le dest: lt)
qed

lemma ComicPlayer_numeric_repaired:
  assumes "r \<in> set (arrays w a)" "numeric (f_begin (objects w r))" "numeric (f_end (objects w r))"
  shows "bound_repaired (objects (ComicPlayer w a) r)"
  using prepare_bounds_numeric [OF assms(2,3)] ComicPlayer_bounds [OF assms(1)]
  by (simp add: bound_repaired_def)

lemma header_frame_2:
  "objects header_world 2 =
     \<lparr>f_url = ''soundUrl1.mp3'', f_begin = JString ''5000'', f_end = JString ''10000'',
      f_audioRef = None\<rparr>"
  by (simp add: header_world_def world_def frame_table_def header_frames_def)

lemma header_frame_2_bounds:
  "prepare_bounds \<lparr>f_url = ''soundUrl1.mp3'', f_begin = JString ''5000'',
       f_end = JString ''10000'', f_audioRef = None\<rparr> =
     \<lparr>f_url = ''soundUrl1.mp3'', f_begin = JString ''10000'', f_end = JString ''5000'',
      f_audioRef = None\<rparr>"
  by (simp add: prepare_bounds_def Let_def str_evals)

text \<open>
  Claim C7. After the constructor every frame should have \<open>begin = -1\<close>, \<open>end = -1\<close> or
  \<open>begin \<le> end\<close>. The constructor compares the bounds with \<^verbatim>\<open><\<close>, which orders two
  strings by their characters. On the example of the file's header comment the second
  frame, \<^verbatim>\<open>{ url: "soundUrl1.mp3", begin: "5000", end: "10000" }\<close>, is in order as
  milliseconds, but \<^verbatim>\<open>"10000" < "5000"\<close> holds for strings: the constructor swaps the
  bounds, and the frame ends up with \<open>begin\<close> 10000 and \<open>end\<close> 5000. The scheduler
  compares the bounds with the position as numbers, so no position is inside this frame
  for the test of lines 200 to 201.
\<close>

theorem header_example_bounds_swapped:
  "f_begin (objects (ComicPlayer header_world 0) 2) = JString ''10000''
   \<and> f_end (objects (ComicPlayer header_world 0) 2) = JString ''5000''
   \<and> to_number (JString ''10000'') = Fin 10000
   \<and> to_number (JString ''5000'') = Fin 5000
   \<and> \<not> bound_repaired (objects (ComicPlayer header_world 0) 2)
   \<and> (\<forall>pos. \<not> within (objects (ComicPlayer header_world 0) 2) (pos + 200) pos)"
proof -
  have "2 \<in> set (arrays header_world 0)"
    by (simp add: header_world_def world_def)
  from ComicPlayer_bounds [OF this] have bounds:
    "f_begin (objects (ComicPlayer header_world 0) 2) = JString ''10000''"
    "f_end (objects (ComicPlayer header_world 0) 2) = JString ''5000''"
    by (simp_all add: header_frame_2 header_frame_2_bounds)
  have nums: "to_number (JString ''10000'') = Fin 10000"
    "to_number (JString ''5000'') = Fin 5000"
    by (simp_all add: str_evals)
  have "\<not> within (objects (ComicPlayer header_world 0) 2) (pos + 200) pos" for pos
    using nums by (simp add: within_def js_ge_def bounds)
  with bounds nums show ?thesis
    by (simp add: bound_repaired_def)
qed

subsection \<open>Track references\<close>



subsection \<open>The caller's array\<close>

text \<open>
  Claim C10. The constructor works on the caller's array in place. The player keeps the
  address it was given and the array keeps its elements; every frame object in the array
  gets the bounds of lines 54 to 64 and an \<^verbatim>\<open>audioRef\<close>; no other object changes; and
  whatever the store holds later at the addresses in that array is what the player reads
  as its frames.
\<close>

theorem constructor_mutates_callers_array:
  "audioFrames (ComicPlayer w a) = a
   \<and> arrays (ComicPlayer w a) = arrays w
   \<and> (\<forall>r \<in> set (arrays w a). \<exists>j.
         objects (ComicPlayer w a) r = (prepare_bounds (objects w r))\<lparr>f_audioRef := Some j\<rparr>)
   \<and> (\<forall>r. r \<notin> set (arrays w a) \<longrightarrow> objects (ComicPlayer w a) r = objects w r)
   \<and> (\<forall>objs' k. 0 \<le> k \<and> k < int (length (arrays w a)) \<longrightarrow>
         frame_at ((ComicPlayer w a)\<lparr>objects := objs'\<rparr>) k = Inr (objs' (arrays w a ! nat k)))"
  using ComicPlayer_visited [of w a]
  by (auto simp: visited_def ComicPlayer_fields frame_at_def)

theorem constructor_mutates_callers_array_witness:
  "audioFrames (ComicPlayer scenario_world 0) = 0
   \<and> (\<exists>j. objects (ComicPlayer scenario_world 0) 3 =
         \<lparr>f_url = ''B'', f_begin = num 2000, f_end = num 2150, f_audioRef = Some j\<rparr>)
   \<and> objects (ComicPlayer scenario_world 0) 4 = blank_frame
   \<and> frame_at ((ComicPlayer scenario_world 0)\<lparr>objects := (\<lambda>r. blank_frame)\<rparr>) 2 = Inr blank_frame"
proof -
  have arr: "arrays scenario_world 0 = [1, 2, 3]"
    by (simp add: scenario_world_def world_def)
  have f3: "prepare_bounds (objects scenario_world 3) =
      \<lparr>f_url = ''B'', f_begin = num 2000, f_end = num 2150, f_audioRef = None\<rparr>"
    by (simp add: scenario_world_def world_def frame_table_def scenario_frames_def
        prepare_bounds_def Let_def)
  have f4: "objects scenario_world 4 = blank_frame"
    by (simp add: scenario_world_def world_def frame_table_def scenario_frames_def)
  from constructor_mutates_callers_array [of scenario_world 0] show ?thesis
    unfolding arr by (simp add: f3 f4)
qed

section \<open>What the operations leave alone\<close>

text \<open>The fields that setting and clearing timers, notifying, and seeking do not touch.\<close>

lemma clear_timer_fields [simp]:
  "currentFrame (clear_timer i s) = currentFrame s"
  "fromFrame (clear_timer i s) = fromFrame s"
  "toFrame (clear_timer i s) = toFrame s"
  "log (clear_timer i s) = log s"
  "doneLoading (clear_timer i s) = doneLoading s"
  "errorsLoading (clear_timer i s) = errorsLoading s"
  "threadTimeoutId (clear_timer i s) = threadTimeoutId s"
  "threadId (clear_timer i s) = threadId s"
  "last_timer (clear_timer i s) = last_timer s"
  "sounds (clear_timer i s) = sounds s"
  by (cases i; simp)+

lemma set_timer_fields [simp]:
  "audio (snd (set_timer k cb d s)) = audio s"
  "arrays (snd (set_timer k cb d s)) = arrays s"
  "objects (snd (set_timer k cb d s)) = objects s"
  "audioFrames (snd (set_timer k cb d s)) = audioFrames s"
  "sounds (snd (set_timer k cb d s)) = sounds s"
  "currentFrame (snd (set_timer k cb d s)) = currentFrame s"
  "log (snd (set_timer k cb d s)) = log s"
  "onFrameChange (snd (set_timer k cb d s)) = onFrameChange s"
  by (simp_all add: set_timer_def Let_def)

lemma audio_at_cong: "audio s' = audio s \<Longrightarrow> audio_at s' r = audio_at s r"
  by (cases r) simp_all

lemma run_fields [simp]:
  "currentFrame (run d s) = currentFrame s"
  "fromFrame (run d s) = fromFrame s"
  "toFrame (run d s) = toFrame s"
  "log (run d s) = log s"
  "doneLoading (run d s) = doneLoading s"
  "errorsLoading (run d s) = errorsLoading s"
  "sounds (run d s) = sounds s"
  by (simp_all add: run_def Let_def set_timer_def)

lemma notify_fields [simp]:
  "currentFrame (notify this s) = currentFrame s"
  "fromFrame (notify this s) = fromFrame s"
  "toFrame (notify this s) = toFrame s"
  by (simp_all add: notify_def)

lemma stopAll_fields [simp]:
  "currentFrame (stopAll s) = currentFrame s"
  "fromFrame (stopAll s) = fromFrame s"
  "toFrame (stopAll s) = toFrame s"
  by (simp_all add: stopAll_def)

lemma start_frame_fields [simp]:
  "currentFrame (after (start_frame s)) = currentFrame s"
  "fromFrame (after (start_frame s)) = fromFrame s"
  "toFrame (after (start_frame s)) = toFrame s"
  by (simp_all add: start_frame_def split: sum.split option.split)

lemma started_fields:
  "currentFrame (after (case start_frame s0 of
      Inl es \<Rightarrow> Inl es | Inr s' \<Rightarrow> Inr (run d (notify this s')))) = currentFrame s0"
  "fromFrame (after (case start_frame s0 of
      Inl es \<Rightarrow> Inl es | Inr s' \<Rightarrow> Inr (run d (notify this s')))) = fromFrame s0"
  "toFrame (after (case start_frame s0 of
      Inl es \<Rightarrow> Inl es | Inr s' \<Rightarrow> Inr (run d (notify this s')))) = toFrame s0"
  using start_frame_fields [of s0] by (cases "start_frame s0"; simp)+

text \<open>
  \<^verbatim>\<open>run\<close> does nothing while a precise wake-up is pending. Otherwise it cancels the
  interval and sets one timeout, which waits 100 when the delay asked for is 0, NaN or
  more than 100.
\<close>

lemma run_pending: "threadTimeoutId s \<noteq> None \<Longrightarrow> run d s = s"
  by (simp add: run_def)

lemma run_schedules:
  assumes "threadTimeoutId s = None"
  shows "timers (run d s) =
      filter (\<lambda>t. Some (tm_id t) \<noteq> threadId s) (timers s) @
      [\<lparr>tm_id = last_timer s + 1, tm_kind = Timeout,
        tm_delay = (if d = NaN \<or> d = Fin 0 then Fin 100
                    else if num_lt (Fin 100) d then Fin 100 else d),
        tm_cb = CbRun\<rparr>]"
    and "threadTimeoutId (run d s) = Some (last_timer s + 1)"
    and "threadId (run d s) = None"
proof -
  have tr: "\<not> truthy (JNumber d) \<longleftrightarrow> d = NaN \<or> d = Fin 0"
    by (cases d) auto
  show "timers (run d s) =
      filter (\<lambda>t. Some (tm_id t) \<noteq> threadId s) (timers s) @
      [\<lparr>tm_id = last_timer s + 1, tm_kind = Timeout,
        tm_delay = (if d = NaN \<or> d = Fin 0 then Fin 100
                    else if num_lt (Fin 100) d then Fin 100 else d),
        tm_cb = CbRun\<rparr>]"
    using assms
    by (cases "threadId s") (auto simp: run_def set_timer_def Let_def updateDelay_def tr)
  show "threadTimeoutId (run d s) = Some (last_timer s + 1)"
    using assms by (cases "threadId s") (simp_all add: run_def set_timer_def Let_def)
  show "threadId (run d s) = None"
    using assms by (cases "threadId s") (simp_all add: run_def set_timer_def Let_def)
qed

text \<open>Whatever delay \<^verbatim>\<open>run\<close> is asked for, the timer it sets waits at most 100.\<close>

lemma run_capped:
  assumes "x \<in> set (timers (run d s))"
  shows "x \<in> set (timers s) \<or> num_le (tm_delay x) (Fin 100)"
proof (cases "threadTimeoutId s")
  case (Some i)
  with assms show ?thesis by (simp add: run_pending)
next
  case None
  have "num_le (if d = NaN \<or> d = Fin 0 then Fin 100
      else if num_lt (Fin 100) d then Fin 100 else d) (Fin 100)"
    by (cases d) auto
  with assms show ?thesis
    unfolding run_schedules(1) [OF None] by auto
qed

section \<open>The branches of a tick\<close>

text \<open>
  \<^verbatim>\<open>thread\<close> branch by branch: no session; the position inside the current frame; the
  end of the last frame in range; playback that ran on into the next frame; a seek to the
  next frame; a next frame beyond the array; a track that stopped playing, in the last
  frame and before it; and a current frame without a track or a sound.
\<close>

lemma thread_idle:
  "idle s \<Longrightarrow> thread this s = Inr (clear_timer (threadId s) (clear_timer (threadId s) s))"
  by (simp add: thread_def)

lemma thread_within:
  assumes "active_on s f t h" "playState (sounds s h) \<noteq> 0"
    "within f (position (sounds s h) + 200) (position (sounds s h))"
  shows "thread this s = Inr (run (frame_delay f (sounds s h)) s)"
  using assms by (simp add: thread_def active_on_def)

lemma thread_last:
  assumes "active_on s f t h" "playState (sounds s h) \<noteq> 0"
    "\<not> within f (position (sounds s h) + 200) (position (sounds s h))"
    "currentFrame s = toFrame s"
  shows "thread this s = Inr (run (Fin 10) (notify this ((stopAll s)\<lparr>currentFrame := - 1\<rparr>)))"
  using assms by (simp add: thread_def active_on_def)

lemma thread_smooth:
  assumes "active_on s f t h" "playState (sounds s h) \<noteq> 0"
    "\<not> within f (position (sounds s h) + 200) (position (sounds s h))"
    "currentFrame s \<noteq> toFrame s" "frame_at s (currentFrame s + 1) = Inr g"
    "f_audioRef g = f_audioRef f" "within g (position (sounds s h)) (position (sounds s h))"
  shows "thread this s = Inr (run (Fin 10) (notify this (s\<lparr>currentFrame := currentFrame s + 1\<rparr>)))"
  using assms by (simp add: thread_def active_on_def)

lemma thread_seek:
  assumes "active_on s f t h" "playState (sounds s h) \<noteq> 0"
    "\<not> within f (position (sounds s h) + 200) (position (sounds s h))"
    "currentFrame s \<noteq> toFrame s" "frame_at s (currentFrame s + 1) = Inr g"
    "\<not> (f_audioRef g = f_audioRef f \<and> within g (position (sounds s h)) (position (sounds s h)))"
  shows "thread this s =
     (case start_frame (stopAll (s\<lparr>currentFrame := currentFrame s + 1\<rparr>)) of
        Inl es \<Rightarrow> Inl es
      | Inr s' \<Rightarrow> Inr (run (Fin 10) (notify this s')))"
  using assms
  by (cases "f_audioRef g = f_audioRef f") (simp_all add: thread_def active_on_def Let_def)

lemma thread_beyond:
  assumes "active_on s f t h" "playState (sounds s h) \<noteq> 0"
    "\<not> within f (position (sounds s h) + 200) (position (sounds s h))"
    "currentFrame s \<noteq> toFrame s" "frame_at s (currentFrame s + 1) = Inl e"
  shows "thread this s = Inl (e, s)"
  using assms by (simp add: thread_def active_on_def)

lemma thread_ended_last:
  assumes "active_on s f t h" "playState (sounds s h) = 0" "currentFrame s = toFrame s"
  shows "thread this s = Inr (notify this ((stopAll s)\<lparr>currentFrame := - 1\<rparr>))"
  using assms by (simp add: thread_def active_on_def)

lemma thread_ended_next:
  assumes "active_on s f t h" "playState (sounds s h) = 0" "currentFrame s \<noteq> toFrame s"
  shows "thread this s =
     (case start_frame ((stopAll s)\<lparr>currentFrame := currentFrame s + 1\<rparr>) of
        Inl es \<Rightarrow> Inl es
      | Inr s' \<Rightarrow> Inr (run (Fin 10) (notify this s')))"
  using assms by (simp add: thread_def active_on_def)

lemma thread_throws:
  assumes "\<not> idle s" "\<nexists>f t h. active_on s f t h"
  shows "\<exists>e. thread this s = Inl (e, s)"
  using assms by (auto simp add: thread_def active_on_def split: sum.split option.split)

section \<open>The readiness gate\<close>

text \<open>The constructor leaves every track without a sound.\<close>

lemma prepare_frame_unbound:
  assumes "\<forall>t \<in> set (snd st). t_object t = None"
  shows "\<forall>t \<in> set (snd (prepare_frame n st r)). t_object t = None"
  using assms by (auto simp: prepare_frame_def Let_def split: option.split)

lemma prepare_frames_unbound:
  "\<forall>t \<in> set (snd st). t_object t = None \<Longrightarrow>
   \<forall>t \<in> set (snd (prepare_frames n rs st)). t_object t = None"
proof (induction rs arbitrary: st)
  case Nil
  then show ?case by simp
next
  case (Cons r rs)
  from prepare_frame_unbound [OF Cons.prems] have
    "\<forall>t \<in> set (snd (prepare_frame n st r)). t_object t = None" .
  from Cons.IH [OF this] show ?case by simp
qed

lemma ComicPlayer_unbound: "\<forall>t \<in> set (audio (ComicPlayer w a)). t_object t = None"
  using prepare_frames_unbound [of "(objects w, [])" "players w + 1" "arrays w a"]
  by (simp add: ComicPlayer_def Let_def)

text \<open>
  The loop of \<^verbatim>\<open>load\<close> touches no timer, and a track without a sound is given one
  without a change to the two flags.
\<close>

lemma load_track_keeps:
  "timers (load_track i s) = timers s"
  "threadTimeoutId (load_track i s) = threadTimeoutId s"
  "threadId (load_track i s) = threadId s"
  "last_timer (load_track i s) = last_timer s"
  "length (audio (load_track i s)) = length (audio s)"
  "sounds (load_track i s) = sounds s"
  by (simp_all add: load_track_def Let_def split: option.split)

lemma load_tracks_keeps:
  assumes "\<And>i s. g (load_track i s) = g s"
  shows "g (fold load_track xs s) = g s"
  by (induction xs arbitrary: s) (simp_all add: assms)

lemma load_track_unbound:
  assumes "i < length (audio s)" "t_object (audio s ! i) = None"
  shows "doneLoading (load_track i s) = doneLoading s"
    and "errorsLoading (load_track i s) = errorsLoading s"
    and "\<And>j. j \<noteq> i \<Longrightarrow> audio (load_track i s) ! j = audio s ! j"
  using assms by (simp_all add: load_track_def Let_def)

lemma load_tracks_unbound:
  assumes "\<forall>j. i \<le> j \<and> j < length (audio s) \<longrightarrow> t_object (audio s ! j) = None"
    and "n = length (audio s)"
  shows "doneLoading (fold load_track [i..<n] s) = doneLoading s
    \<and> errorsLoading (fold load_track [i..<n] s) = errorsLoading s"
  using assms
proof (induction "n - i" arbitrary: i s)
  case 0
  then show ?case by simp
next
  case (Suc k)
  then have lt: "i < n" by simp
  then have upt: "[i..<n] = i # [Suc i..<n]" by (rule upt_conv_Cons)
  from Suc.prems lt have unb: "i < length (audio s)" "t_object (audio s ! i) = None"
    by simp_all
  note lt' = load_track_unbound [OF unb]
  have "\<forall>j. Suc i \<le> j \<and> j < length (audio (load_track i s))
      \<longrightarrow> t_object (audio (load_track i s) ! j) = None"
    using Suc.prems(1) by (simp add: lt' load_track_keeps)
  moreover have "n = length (audio (load_track i s))"
    using Suc.prems(2) by (simp add: load_track_keeps)
  moreover from Suc.hyps(2) have "k = n - Suc i" by simp
  ultimately have "doneLoading (fold load_track [Suc i..<n] (load_track i s)) = doneLoading (load_track i s)
    \<and> errorsLoading (fold load_track [Suc i..<n] (load_track i s)) = errorsLoading (load_track i s)"
    by (rule Suc.hyps(1) [rotated])
  then show ?case
    unfolding upt by (simp add: lt')
qed

text \<open>So the first call of \<^verbatim>\<open>load\<close> on a constructed player goes straight to \<^verbatim>\<open>run(0)\<close>.\<close>

lemma load_constructed:
  "doneLoading (load (ComicPlayer w a))"
  "\<not> errorsLoading (load (ComicPlayer w a))"
  "timers (load (ComicPlayer w a)) =
     timers w @ [\<lparr>tm_id = last_timer w + 1, tm_kind = Timeout, tm_delay = Fin 100, tm_cb = CbRun\<rparr>]"
  "threadTimeoutId (load (ComicPlayer w a)) = Some (last_timer w + 1)"
proof -
  let ?s = "(ComicPlayer w a)\<lparr>doneLoading := True\<rparr>"
  let ?s1 = "fold load_track [0..<length (audio (ComicPlayer w a))] ?s"
  have "\<forall>j. 0 \<le> j \<and> j < length (audio ?s) \<longrightarrow> t_object (audio ?s ! j) = None"
    using ComicPlayer_unbound [of w a] by simp
  from load_tracks_unbound [OF this, of "length (audio (ComicPlayer w a))"]
  have s1: "doneLoading ?s1" "\<not> errorsLoading ?s1"
    by (simp_all add: ComicPlayer_def Let_def)
  have s1': "timers ?s1 = timers w" "threadTimeoutId ?s1 = None" "last_timer ?s1 = last_timer w"
    "threadId ?s1 = None"
    by (simp_all add: load_tracks_keeps load_track_keeps ComicPlayer_def Let_def)
  have load: "load (ComicPlayer w a) = run (Fin 0) ?s1"
    using s1(1) by (simp add: load_def Let_def)
  show "doneLoading (load (ComicPlayer w a))" "\<not> errorsLoading (load (ComicPlayer w a))"
    "timers (load (ComicPlayer w a)) =
       timers w @ [\<lparr>tm_id = last_timer w + 1, tm_kind = Timeout, tm_delay = Fin 100, tm_cb = CbRun\<rparr>]"
    "threadTimeoutId (load (ComicPlayer w a)) = Some (last_timer w + 1)"
    unfolding load using s1 s1' run_schedules [OF s1'(2), of "Fin 0"]
    by simp_all
qed

text \<open>
  A track whose sound reports ready state 3 sets \<^verbatim>\<open>errorsLoading\<close>, and no iteration of
  the loop clears the flag.
\<close>

lemma load_track_failed:
  assumes "i < length (audio s)" "t_object (audio s ! i) = Some h" "readyState (sounds s h) = 3"
  shows "errorsLoading (load_track i s)"
  using assms by (simp add: load_track_def Let_def)

lemma load_track_sticky: "errorsLoading s \<Longrightarrow> errorsLoading (load_track i s)"
  by (simp add: load_track_def Let_def split: option.split)

text \<open>
  Claim C2. The gate should poll again after 50 milliseconds while a track is not ready,
  and start the scheduler only when every track is. The constructor leaves every track
  without a sound (\<^verbatim>\<open>object: null\<close>), and the branch of line 91 that creates the sound
  does not clear \<^verbatim>\<open>doneLoading\<close>. So for every world and every array, whatever the
  engine reports for its sounds, the first call of \<^verbatim>\<open>load\<close> ends with \<^verbatim>\<open>doneLoading\<close>
  set, sets no timer for another poll, and sets the scheduler's first wake-up.
\<close>

theorem first_load_starts_scheduler:
  "doneLoading (load (ComicPlayer w a))
   \<and> timers (load (ComicPlayer w a)) =
       timers w @ [\<lparr>tm_id = last_timer w + 1, tm_kind = Timeout, tm_delay = Fin 100, tm_cb = CbRun\<rparr>]
   \<and> sounds (load (ComicPlayer w a)) = sounds w"
proof -
  have "sounds (load (ComicPlayer w a)) = sounds w"
    by (simp add: load_def Let_def load_tracks_keeps load_track_keeps ComicPlayer_def)
  then show ?thesis by (simp add: load_constructed)
qed

section \<open>One precise wake-up\<close>

text \<open>The invariant depends on the timers and on \<^verbatim>\<open>threadTimeoutId\<close> only.\<close>

lemma wake_inv_eq:
  "timers s' = timers s \<Longrightarrow> threadTimeoutId s' = threadTimeoutId s \<Longrightarrow> wake_inv s' = wake_inv s"
  by (simp add: wake_inv_def precise_pending_def)

lemma wake_inv_remove:
  assumes "wake_inv s"
  shows "wake_inv (s\<lparr>timers := filter P (timers s)\<rparr>)"
proof -
  let ?s = "s\<lparr>timers := filter P (timers s)\<rparr>"
  have pp: "precise_pending ?s = filter P (precise_pending s)"
    by (simp add: precise_pending_def conj_commute)
  have "length (filter P (precise_pending s)) \<le> length (precise_pending s)"
    by (rule length_filter_le)
  with assms have "length (precise_pending ?s) \<le> 1"
    unfolding pp wake_inv_def by linarith
  moreover from assms have "threadTimeoutId ?s = None \<longrightarrow> precise_pending ?s = []"
    unfolding pp wake_inv_def by simp
  moreover from assms have "\<forall>t \<in> set (precise_pending ?s). tm_kind t = Timeout"
    unfolding pp wake_inv_def by simp
  ultimately show ?thesis
    unfolding wake_inv_def by blast
qed

lemma wake_inv_clear_timer: "wake_inv s \<Longrightarrow> wake_inv (clear_timer i s)"
  by (cases i) (simp_all add: wake_inv_remove)

lemma wake_inv_set_timer:
  "cb \<noteq> CbRun \<Longrightarrow> wake_inv (snd (set_timer k cb d s)) = wake_inv s"
  by (simp add: set_timer_def Let_def wake_inv_def precise_pending_def)

lemma wake_inv_run: "wake_inv s \<Longrightarrow> wake_inv (run d s)"
proof (cases "threadTimeoutId s")
  case (Some i)
  then show "wake_inv s \<Longrightarrow> ?thesis" by (simp add: run_def)
next
  case None
  assume inv: "wake_inv s"
  define s1 where "s1 = (if threadId s \<noteq> None then (clear_timer (threadId s) s)\<lparr>threadId := None\<rparr> else s)"
  have "wake_inv s1" "threadTimeoutId s1 = None"
    using wake_inv_clear_timer [OF inv, of "threadId s"] inv None
    by (auto simp: s1_def wake_inv_def precise_pending_def)
  then have "precise_pending s1 = []" by (simp add: wake_inv_def)
  then have "precise_pending (run d s) = [\<lparr>tm_id = last_timer s1 + 1, tm_kind = Timeout,
      tm_delay = (let d1 = (if \<not> truthy (JNumber d) then Fin updateDelay else d)
                  in if num_lt (Fin updateDelay) d1 then Fin updateDelay else d1), tm_cb = CbRun\<rparr>]"
    "threadTimeoutId (run d s) \<noteq> None"
    using None unfolding run_def Let_def s1_def [symmetric]
    by (simp_all add: set_timer_def Let_def precise_pending_def)
  then show ?thesis by (auto simp: wake_inv_def)
qed

lemma wake_inv_notify [simp]: "wake_inv (notify this s) = wake_inv s"
  by (rule wake_inv_eq) (simp_all add: notify_def)

lemma wake_inv_stopAll [simp]: "wake_inv (stopAll s) = wake_inv s"
  by (rule wake_inv_eq) (simp_all add: stopAll_def)

lemma wake_inv_currentFrame [simp]: "wake_inv (s\<lparr>currentFrame := c\<rparr>) = wake_inv s"
  by (rule wake_inv_eq) simp_all

lemma wake_inv_range [simp]: "wake_inv (s\<lparr>fromFrame := a, toFrame := b\<rparr>) = wake_inv s"
  by (rule wake_inv_eq) simp_all

lemma wake_inv_start_frame: "wake_inv (after (start_frame s)) = wake_inv s"
  by (rule wake_inv_eq) (simp_all add: start_frame_def split: sum.split option.split)

lemma start_frame_Inr: "start_frame s = Inr s' \<Longrightarrow> wake_inv s' = wake_inv s"
  using wake_inv_start_frame [of s] by simp

lemma start_frame_Inl: "start_frame s = Inl (e, s') \<Longrightarrow> s' = s"
  by (simp add: start_frame_def split: sum.splits option.splits)

lemma wake_inv_started:
  assumes "wake_inv s0"
  shows "wake_inv (after (case start_frame s0 of
        Inl es \<Rightarrow> Inl es
      | Inr s' \<Rightarrow> Inr (run d (notify this s'))))"
proof (cases "start_frame s0")
  case (Inl es)
  then have "snd es = s0" by (cases es) (simp add: start_frame_Inl)
  with Inl assms show ?thesis by simp
next
  case (Inr s')
  with assms have "wake_inv s'" by (simp add: start_frame_Inr)
  with Inr show ?thesis by (simp add: wake_inv_run)
qed

text \<open>A tick keeps the invariant, whichever branch it takes and also when it throws.\<close>

lemma wake_inv_thread:
  assumes inv: "wake_inv s"
  shows "wake_inv (after (thread this s))"
proof (cases "idle s")
  case True
  with inv show ?thesis by (simp add: thread_idle wake_inv_clear_timer)
next
  case False
  show ?thesis
  proof (cases "\<exists>f t h. active_on s f t h")
    case no: False
    from thread_throws [OF False no, of this] obtain e where "thread this s = Inl (e, s)" ..
    with inv show ?thesis by simp
  next
    case True
    then obtain f t h where act: "active_on s f t h" by blast
    let ?pos = "position (sounds s h)"
    show ?thesis
    proof (cases "playState (sounds s h) = 0")
      case ended: True
      show ?thesis
      proof (cases "currentFrame s = toFrame s")
        case True
        with inv show ?thesis by (simp add: thread_ended_last [OF act ended])
      next
        case False
        from inv have "wake_inv ((stopAll s)\<lparr>currentFrame := currentFrame s + 1\<rparr>)" by simp
        from wake_inv_started [OF this] show ?thesis
          by (simp add: thread_ended_next [OF act ended False])
      qed
    next
      case playing: False
      show ?thesis
      proof (cases "within f (?pos + 200) ?pos")
        case True
        with inv show ?thesis by (simp add: thread_within [OF act playing] wake_inv_run)
      next
        case out: False
        show ?thesis
        proof (cases "currentFrame s = toFrame s")
          case True
          with inv show ?thesis by (simp add: thread_last [OF act playing out] wake_inv_run)
        next
          case more: False
          show ?thesis
          proof (cases "frame_at s (currentFrame s + 1)")
            case (Inl e)
            with inv show ?thesis by (simp add: thread_beyond [OF act playing out more])
          next
            case (Inr g)
            show ?thesis
            proof (cases "f_audioRef g = f_audioRef f \<and> within g ?pos ?pos")
              case True
              with inv show ?thesis
                by (simp add: thread_smooth [OF act playing out more Inr] wake_inv_run)
            next
              case False
              from inv have "wake_inv (stopAll (s\<lparr>currentFrame := currentFrame s + 1\<rparr>))" by simp
              from wake_inv_started [OF this] show ?thesis
                by (simp add: thread_seek [OF act playing out more Inr False])
            qed
          qed
        qed
      qed
    qed
  qed
qed

text \<open>So does every action of the page, the window and the engine.\<close>

lemma wake_inv_play:
  assumes "wake_inv s"
  shows "wake_inv (after (play from to noToggle s))"
proof (cases "errorsLoading s")
  case True
  with assms show ?thesis by (simp add: play_def)
next
  case False
  define s0 where "s0 = (if \<not> doneLoading s
      then snd (set_timer Timeout (CbReplay from to noToggle) (Fin 100) s) else s)"
  define r where "r = play_range from to (int (length (arrays s (audioFrames s))))"
  define s1 where "s1 = s0\<lparr>fromFrame := fst r, toFrame := snd r\<rparr>"
  from assms have "wake_inv s0" by (simp add: s0_def wake_inv_set_timer)
  then have s1: "wake_inv s1" by (simp add: s1_def)
  then have "wake_inv ((stopAll s1)\<lparr>currentFrame := fst r\<rparr>)" by simp
  note restart = wake_inv_started [OF this, of "Fin 0" ThisPlayer]
  from s1 have toggle: "wake_inv (run (Fin 0) (notify ThisPlayer ((stopAll s1)\<lparr>currentFrame := - 1\<rparr>)))"
    by (simp add: wake_inv_run)
  from False show ?thesis
    unfolding play_def Let_def s0_def [symmetric] r_def [symmetric] s1_def [symmetric]
    using restart toggle s1
    by (simp split: option.split)
qed

lemma wake_inv_stop: "wake_inv (stop s) = wake_inv s"
  by (simp add: stop_def)

lemma load_track_wake:
  "timers (load_track i s) = timers s" "threadTimeoutId (load_track i s) = threadTimeoutId s"
  by (simp_all add: load_track_def Let_def split: option.split)

lemma wake_inv_load_tracks: "wake_inv (fold load_track xs s) = wake_inv s"
proof (induction xs arbitrary: s)
  case Nil
  show ?case by simp
next
  case (Cons i xs)
  have "wake_inv (load_track i s) = wake_inv s"
    by (rule wake_inv_eq) (rule load_track_wake)+
  with Cons show ?case by simp
qed

lemma wake_inv_load:
  assumes "wake_inv s"
  shows "wake_inv (load s)"
proof -
  have "wake_inv (s\<lparr>doneLoading := True\<rparr>) = wake_inv s"
    by (rule wake_inv_eq) simp_all
  with assms have "wake_inv (fold load_track [0..<length (audio s)] (s\<lparr>doneLoading := True\<rparr>))"
    by (simp add: wake_inv_load_tracks)
  then show ?thesis
    by (simp add: load_def Let_def wake_inv_run wake_inv_set_timer)
qed

lemma wake_inv_fired:
  assumes inv: "wake_inv s" and t: "find (\<lambda>t. tm_id t = i) (timers s) = Some t"
    and cb: "tm_cb t = CbRun"
  shows "tm_kind t = Timeout"
    and "precise_pending (s\<lparr>timers := filter (\<lambda>t. tm_id t \<noteq> i) (timers s)\<rparr>) = []"
proof -
  from t have mem: "t \<in> set (timers s)" and id: "tm_id t = i"
    by (auto simp: find_Some_iff in_set_conv_nth)
  with cb have pend: "t \<in> set (precise_pending s)"
    by (simp add: precise_pending_def)
  with inv show "tm_kind t = Timeout"
    by (simp add: wake_inv_def)
  from inv have "length (precise_pending s) \<le> 1" by (simp add: wake_inv_def)
  with pend have "precise_pending s = [t]"
    by (cases "precise_pending s") auto
  then have "filter (\<lambda>t. tm_id t \<noteq> i) (precise_pending s) = []"
    using id by simp
  then show "precise_pending (s\<lparr>timers := filter (\<lambda>t. tm_id t \<noteq> i) (timers s)\<rparr>) = []"
    by (simp add: precise_pending_def conj_commute)
qed

lemma wake_inv_fire:
  assumes inv: "wake_inv s"
  shows "wake_inv (after (fire i s))"
proof (cases "find (\<lambda>t. tm_id t = i) (timers s)")
  case None
  with inv show ?thesis by (simp add: fire_def)
next
  case (Some t)
  define s1 where "s1 = (if tm_kind t = Timeout
      then s\<lparr>timers := filter (\<lambda>t. tm_id t \<noteq> i) (timers s)\<rparr> else s)"
  from inv have s1: "wake_inv s1"
    by (simp add: s1_def wake_inv_remove)
  show ?thesis
  proof (cases "tm_cb t")
    case CbLoad
    with Some s1 show ?thesis
      by (simp add: fire_def Let_def s1_def [symmetric] wake_inv_load)
  next
    case (CbReplay x y z)
    with Some s1 show ?thesis
      by (simp add: fire_def Let_def s1_def [symmetric])
  next
    case CbThread
    with Some wake_inv_thread [OF s1, of ThisPlayer] show ?thesis
      by (simp add: fire_def Let_def s1_def [symmetric])
  next
    case CbRun
    let ?s2 = "s\<lparr>timers := filter (\<lambda>t. tm_id t \<noteq> i) (timers s), threadTimeoutId := None\<rparr>"
    note fired = wake_inv_fired [OF inv Some CbRun]
    from fired(2) have s2: "wake_inv ?s2"
      by (simp add: wake_inv_def precise_pending_def)
    have eq: "fire i s = (if threadId s \<noteq> None then Inr ?s2
        else (case thread ThisWindow ?s2 of
                Inl es \<Rightarrow> Inl es
              | Inr s3 \<Rightarrow> Inr (start_interval s3)))"
      using Some CbRun fired(1) by (simp add: fire_def Let_def)
    show ?thesis
    proof (cases "threadId s \<noteq> None")
      case True
      with s2 show ?thesis by (simp add: eq)
    next
      case False
      show ?thesis
      proof (cases "thread ThisWindow ?s2")
        case (Inl es)
        with wake_inv_thread [OF s2, of ThisWindow] False show ?thesis
          by (simp add: eq)
      next
        case (Inr s3)
        with wake_inv_thread [OF s2, of ThisWindow] have "wake_inv s3" by simp
        then have "wake_inv (snd (set_timer Interval CbThread (Fin updateDelay) s3))"
          by (simp add: wake_inv_set_timer)
        then have "wake_inv (start_interval s3)"
          by (simp add: start_interval_def Let_def wake_inv_def precise_pending_def)
        with Inr False show ?thesis
          by (simp add: eq)
      qed
    qed
  qed
qed

lemma wake_inv_step:
  assumes "wake_inv s"
  shows "wake_inv (step act s)"
proof (cases act)
  case (Play x y z)
  with assms show ?thesis by (simp add: wake_inv_play)
next
  case Stop
  with assms show ?thesis by (simp add: wake_inv_stop)
next
  case (Fire i)
  with assms show ?thesis by (simp add: wake_inv_fire)
next
  case (SoundManagerReady b)
  with assms show ?thesis by (simp add: onready_def wake_inv_load)
next
  case (Engine x)
  with assms show ?thesis by (simp add: wake_inv_def precise_pending_def)
next
  case (Caller x y)
  with assms show ?thesis by (simp add: wake_inv_def precise_pending_def)
next
  case (Handler b)
  with assms show ?thesis by (simp add: wake_inv_def precise_pending_def)
next
  case (WindowHandler b)
  with assms show ?thesis by (simp add: wake_inv_def precise_pending_def)
qed

lemma wake_inv_ComicPlayer:
  "precise_pending w = [] \<Longrightarrow> wake_inv (ComicPlayer w a)"
  by (simp add: wake_inv_def precise_pending_def ComicPlayer_def Let_def)

lemma reachable_wake_inv: "reachable s \<Longrightarrow> wake_inv s"
  by (induction rule: reachable.induct) (simp_all add: wake_inv_ComicPlayer wake_inv_step)

text \<open>
  Claim C6. In every state a constructed player can reach, at most one precise wake-up is
  pending; while one is pending a call of \<^verbatim>\<open>run\<close> changes nothing, so the earlier
  wake-up stays; and after any call of \<^verbatim>\<open>run\<close> there is still at most one.
\<close>

theorem precise_wakeup_single:
  assumes "reachable s"
  shows "length (precise_pending s) \<le> 1
    \<and> (precise_pending s \<noteq> [] \<longrightarrow> run d s = s)
    \<and> length (precise_pending (run d s)) \<le> 1"
proof -
  from assms have inv: "wake_inv s" by (rule reachable_wake_inv)
  then have "wake_inv (run d s)" by (rule wake_inv_run)
  moreover from inv have "precise_pending s \<noteq> [] \<longrightarrow> threadTimeoutId s \<noteq> None"
    by (auto simp: wake_inv_def)
  ultimately show ?thesis
    using inv by (auto simp: wake_inv_def run_pending)
qed

theorem precise_wakeup_single_witness:
  "reachable (step (SoundManagerReady True) (ComicPlayer scenario_world 0))
   \<and> precise_pending (step (SoundManagerReady True) (ComicPlayer scenario_world 0)) \<noteq> []
   \<and> length (precise_pending (step (SoundManagerReady True) (ComicPlayer scenario_world 0))) \<le> 1
   \<and> run (Fin 10) (step (SoundManagerReady True) (ComicPlayer scenario_world 0))
       = step (SoundManagerReady True) (ComicPlayer scenario_world 0)"
proof -
  let ?s = "step (SoundManagerReady True) (ComicPlayer scenario_world 0)"
  have "precise_pending scenario_world = []"
    by (simp add: precise_pending_def scenario_world_def world_def)
  then have "reachable (ComicPlayer scenario_world 0)" by (rule constructed)
  then have r: "reachable ?s" by (rule stepped)
  have p: "precise_pending ?s \<noteq> []"
    by (simp add: onready_def precise_pending_def load_constructed)
  from precise_wakeup_single [OF r, of "Fin 10"] r p show ?thesis by simp
qed

section \<open>Evaluating the scenario\<close>

text \<open>The equations that compute the example runs.\<close>

lemmas evals = ComicPlayer_def scenario_world_def world_def frame_table_def scenario_frames_def
      prepare_frame_def prepare_bounds_def Let_def string_of_nat.simps digit_char_def
      exec_def onready_def load_def load_track_def run_def set_timer_def updateDelay_def
      play_def play_range_def start_frame_def frame_at_def notify_def stopAll_def
      fire_def thread_def idle_def within_def frame_delay_def js_gt_def js_ge_def js_sub_def
      start_interval_def reporting_def scenario_player_def playing_0_2_def crossing_0_1_def
      ending_2_2_def waking_2_2_def skipping_2_2_def

text \<open>The scenario, 80 milliseconds into frame 0.\<close>

lemma playing_0_2_facts:
  "active_on playing_0_2
     \<lparr>f_url = ''A'', f_begin = num (- 1), f_end = num 250, f_audioRef = Some 0\<rparr>
     \<lparr>t_id = ''comic_1_0'', t_url = ''A'', t_object = Some ''comic_1_0''\<rparr> ''comic_1_0''"
  "sounds playing_0_2 = reporting 1 80"
  "threadTimeoutId playing_0_2 = None"
  "last_timer playing_0_2 = 3"
  "onFrameChange playing_0_2"
  "\<not> errorsLoading playing_0_2"
  "currentFrame playing_0_2 = 0"
  "arrays playing_0_2 (audioFrames playing_0_2) = [1, 2, 3]"
  by (simp_all add: active_on_def evals)

section \<open>The delay of a tick\<close>

text \<open>
  The test of lines 200 to 201 when the bounds are numbers, and the delay of lines 203 to
  205: the frame's \<^verbatim>\<open>end\<close> when it is greater than 0, else the track's duration, minus
  the position, and at least 10.
\<close>

lemma within_numeric:
  assumes "f_begin f = num (of_int b)" "f_end f = num (of_int e)"
  shows "within f lo pos \<longleftrightarrow> b \<le> lo \<and> (pos \<le> e \<or> e = - 1)"
proof -
  have "(of_int e :: rat) = - 1 \<longleftrightarrow> e = - 1"
    using of_int_eq_iff [of e "- 1", where ?'a = rat] by simp
  with assms show ?thesis by (simp add: within_def js_ge_def)
qed

lemma frame_delay_value:
  assumes e: "to_number (f_end f) = Fin (of_int e)"
    and D: "D = (if 0 < e then e else duration sd) - position sd" and safe: "\<bar>D\<bar> \<le> 2 ^ 53"
  shows "frame_delay f sd = Fin (of_int (max 10 D))"
proof -
  from e have gt: "js_gt (f_end f) (num 0) \<longleftrightarrow> 0 < e"
    by (cases "f_end f") (simp_all add: js_gt_def)
  have "js_sub (if js_gt (f_end f) (num 0) then f_end f else num (of_int (duration sd)))
      (num (of_int (position sd))) = to_double (of_int D)"
    unfolding gt using e by (simp add: js_sub_def D)
  also have "\<dots> = Fin (of_int D)"
    using safe by (rule to_double_int)
  finally show ?thesis
    by (simp add: frame_delay_def Let_def max_def)
qed

text \<open>
  A tick finds the track playing and the position inside the current frame, whose
  \<^verbatim>\<open>end\<close> converts to the integer \<open>e\<close>. The tick asks \<^verbatim>\<open>run\<close> for the delay \<open>D\<close>. When no
  precise wake-up is pending, the timer \<^verbatim>\<open>run\<close> sets waits \<open>min 100 D\<close>; and no timer set
  by \<^verbatim>\<open>run\<close> ever waits longer than 100.
\<close>

lemma tick_asks_for_delay:
  assumes act: "active_on s f t h" and playing: "playState (sounds s h) \<noteq> 0"
    and inside: "within f (position (sounds s h) + 200) (position (sounds s h))"
    and e: "to_number (f_end f) = Fin (of_int e)"
    and R: "R = (if 0 < e then e else duration (sounds s h)) - position (sounds s h)"
    and safe: "\<bar>R\<bar> \<le> 2 ^ 53" and D: "D = max 10 R"
  shows "thread this s = Inr (run (Fin (of_int D)) s)
    \<and> (threadTimeoutId s = None \<longrightarrow>
         last (timers (run (Fin (of_int D)) s)) =
           \<lparr>tm_id = last_timer s + 1, tm_kind = Timeout, tm_delay = Fin (of_int (min 100 D)),
            tm_cb = CbRun\<rparr>)
    \<and> (\<forall>d. \<forall>x \<in> set (timers (run d s)).
          x \<in> set (timers s) \<or> num_le (tm_delay x) (Fin 100))"
proof -
  from thread_within [OF act playing inside]
  have "thread this s = Inr (run (Fin (of_int D)) s)"
    by (simp add: frame_delay_value [OF e R safe] D)
  moreover have "last (timers (run (Fin (of_int D)) s)) =
      \<lparr>tm_id = last_timer s + 1, tm_kind = Timeout, tm_delay = Fin (of_int (min 100 D)),
       tm_cb = CbRun\<rparr>"
    if "threadTimeoutId s = None"
  proof -
    have "10 \<le> D" by (simp add: D)
    then show ?thesis
      unfolding run_schedules(1) [OF that] by (auto simp: min_def)
  qed
  ultimately show ?thesis
    using run_capped by blast
qed

text \<open>
  The callback of a precise wake-up does not tick while the interval is running (line
  180): it clears \<^verbatim>\<open>threadTimeoutId\<close> and returns.
\<close>

lemma fire_wakeup_skipped:
  assumes "find (\<lambda>t. tm_id t = i) (timers s) = Some t" "tm_kind t = Timeout" "tm_cb t = CbRun"
    "threadId s \<noteq> None"
  shows "fire i s =
    Inr (s\<lparr>timers := filter (\<lambda>t. tm_id t \<noteq> i) (timers s), threadTimeoutId := None\<rparr>)"
  using assms by (simp add: fire_def Let_def)

text \<open>
  Claim C8. After a tick inside the current frame the next tick should come when the
  frame's remaining time has passed, at least 10 and at most 100 milliseconds later. In
  the scenario, \<^verbatim>\<open>play(2, 2)\<close> is under way on frame 2, which ends at 2150, and the
  wake-up set at loading (handle 1) fires at position 2080. Its tick asks \<^verbatim>\<open>run\<close> for the
  remaining 70 milliseconds, and \<^verbatim>\<open>run\<close> sets a wake-up (handle 2) after 70; then the
  callback starts the interval (handle 3, line 182). When wake-up 2 fires, at position
  2151, line 180 finds the interval running and returns: the state is as before but for
  the timer that fired, and no tick has run. The next tick is the interval's, 100
  milliseconds after the last one.
\<close>

theorem wakeup_set_by_callback_tick_is_skipped:
  "currentFrame waking_2_2 = 2
   \<and> frame_at waking_2_2 2 =
       Inr \<lparr>f_url = ''B'', f_begin = num 2000, f_end = num 2150, f_audioRef = Some 1\<rparr>
   \<and> sounds waking_2_2 ''comic_1_1'' =
       \<lparr>readyState = 2, playState = 1, position = 2080, duration = 20000\<rparr>
   \<and> timers waking_2_2 = [\<lparr>tm_id = 1, tm_kind = Timeout, tm_delay = Fin 100, tm_cb = CbRun\<rparr>]
   \<and> timers (after (fire 1 waking_2_2)) =
       [\<lparr>tm_id = 2, tm_kind = Timeout, tm_delay = Fin 70, tm_cb = CbRun\<rparr>,
        \<lparr>tm_id = 3, tm_kind = Interval, tm_delay = Fin 100, tm_cb = CbThread\<rparr>]
   \<and> fire 2 skipping_2_2 =
       Inr (skipping_2_2\<lparr>timers :=
              [\<lparr>tm_id = 3, tm_kind = Interval, tm_delay = Fin 100, tm_cb = CbThread\<rparr>],
            threadTimeoutId := None\<rparr>)"
  by (simp add: evals)

section \<open>The range of a session\<close>

text \<open>
  Lines 126 to 132 swap \<open>from\<close> and \<open>to\<close> when they are out of order, raise \<open>from\<close> to 0
  and lower \<open>to\<close> to the last index. When the requested range meets the frames of the
  array, the result is a range of frame indices.
\<close>

lemma play_range_overlap:
  assumes "0 < n" "min from to \<le> n - 1" "0 \<le> max from to"
  shows "0 \<le> fst (play_range from to n)"
    and "fst (play_range from to n) \<le> snd (play_range from to n)"
    and "snd (play_range from to n) \<le> n - 1"
proof -
  define lo where "lo = (if from > to then to else from)"
  define hi where "hi = (if from > to then from else to)"
  from assms have lohi: "lo \<le> hi" "lo \<le> n - 1" "0 \<le> hi"
    by (simp_all add: lo_def hi_def min_def max_def split: if_splits)
  have pr: "play_range from to n = (if lo < 0 then 0 else lo, if hi \<ge> n then n - 1 else hi)"
    by (simp add: play_range_def Let_def lo_def hi_def)
  from lohi assms(1) show "0 \<le> fst (play_range from to n)"
    and "fst (play_range from to n) \<le> snd (play_range from to n)"
    and "snd (play_range from to n) \<le> n - 1"
    unfolding pr by simp_all
qed

lemma play_range_inside:
  assumes "0 \<le> from" "from \<le> to" "to < n"
  shows "play_range from to n = (from, to)"
  using assms by (simp add: play_range_def)

text \<open>
  Claim C1. After \<^verbatim>\<open>play(from, to)\<close> the session's range should lie within the frames,
  with \<open>fromFrame \<le> toFrame\<close>, and an active session should have \<open>currentFrame\<close> in
  the range. Lines 131 and 132 clamp \<open>from\<close> only from below and \<open>to\<close> only from above. With
  three frames, \<^verbatim>\<open>play(5, 7)\<close> leaves \<open>fromFrame = 5\<close> and \<open>toFrame = 2\<close>, sets
  \<open>currentFrame = 5\<close>, and throws at line 149, where \<^verbatim>\<open>audioFrames[5]\<close> is
  \<^verbatim>\<open>undefined\<close>.
\<close>

theorem play_beyond_last_frame:
  "length (arrays scenario_player (audioFrames scenario_player)) = 3
   \<and> map_sum fst (\<lambda>s. ()) (play 5 7 False scenario_player) = Inl TypeError
   \<and> fromFrame (after (play 5 7 False scenario_player)) = 5
   \<and> toFrame (after (play 5 7 False scenario_player)) = 2
   \<and> currentFrame (after (play 5 7 False scenario_player)) = 5"
  by (simp add: evals)

text \<open>
  Where that slip does not strike, the claim's range and invariant hold: a tick keeps the
  session's invariant.
\<close>

lemma thread_keeps_session:
  assumes ok: "session_ok s"
  shows "session_ok (after (thread this s))"
proof (cases "idle s")
  case True
  with ok show ?thesis by (simp add: thread_idle session_ok_def)
next
  case False
  then have range: "fromFrame s \<le> currentFrame s" "currentFrame s \<le> toFrame s"
    by (simp_all add: idle_def)
  show ?thesis
  proof (cases "\<exists>f t h. active_on s f t h")
    case no: False
    from thread_throws [OF False no, of this] obtain e where "thread this s = Inl (e, s)" ..
    with ok show ?thesis by simp
  next
    case True
    then obtain f t h where act: "active_on s f t h" by blast
    let ?pos = "position (sounds s h)"
    show ?thesis
    proof (cases "playState (sounds s h) = 0")
      case ended: True
      show ?thesis
      proof (cases "currentFrame s = toFrame s")
        case True
        then show ?thesis by (simp add: thread_ended_last [OF act ended] session_ok_def)
      next
        case False
        with range show ?thesis
          by (simp add: thread_ended_next [OF act ended False] started_fields session_ok_def)
      qed
    next
      case playing: False
      show ?thesis
      proof (cases "within f (?pos + 200) ?pos")
        case True
        with ok show ?thesis by (simp add: thread_within [OF act playing] session_ok_def)
      next
        case out: False
        show ?thesis
        proof (cases "currentFrame s = toFrame s")
          case True
          then show ?thesis by (simp add: thread_last [OF act playing out] session_ok_def)
        next
          case more: False
          show ?thesis
          proof (cases "frame_at s (currentFrame s + 1)")
            case (Inl e)
            with ok show ?thesis by (simp add: thread_beyond [OF act playing out more])
          next
            case (Inr g)
            show ?thesis
            proof (cases "f_audioRef g = f_audioRef f \<and> within g ?pos ?pos")
              case True
              with range more show ?thesis
                by (simp add: thread_smooth [OF act playing out more Inr] session_ok_def)
            next
              case False
              with range more show ?thesis
                by (simp add: thread_seek [OF act playing out more Inr False] started_fields
                    session_ok_def)
            qed
          qed
        qed
      qed
    qed
  qed
qed

text \<open>
  A call of \<^verbatim>\<open>play\<close> that returns, with a range that meets the frames: the session's range
  is a range of frame indices, and the session is idle or at the first frame of the range.
\<close>

lemma play_session:
  assumes ok: "\<not> errorsLoading s" and ret: "play from to noToggle s = Inr s'"
    and n: "n = int (length (arrays s (audioFrames s)))" "0 < n"
    and meet: "min from to \<le> n - 1" "0 \<le> max from to"
  shows "0 \<le> fromFrame s' \<and> fromFrame s' \<le> toFrame s' \<and> toFrame s' \<le> n - 1
    \<and> (currentFrame s' = - 1 \<or> currentFrame s' = fromFrame s')"
proof -
  define s0 where "s0 = (if \<not> doneLoading s
      then snd (set_timer Timeout (CbReplay from to noToggle) (Fin 100) s) else s)"
  define r where "r = play_range from to n"
  define s1 where "s1 = s0\<lparr>fromFrame := fst r, toFrame := snd r\<rparr>"
  note pr = play_range_overlap [OF n(2) meet, folded r_def]
  let ?restart = "case start_frame ((stopAll s1)\<lparr>currentFrame := fst r\<rparr>) of
      Inl es \<Rightarrow> Inl es | Inr s' \<Rightarrow> Inr (run (Fin 0) (notify ThisPlayer s'))"
  let ?toggle = "run (Fin 0) (notify ThisPlayer ((stopAll s1)\<lparr>currentFrame := - 1\<rparr>))"
  have s1: "fromFrame s1 = fst r" "toFrame s1 = snd r" by (simp_all add: s1_def)
  have restart: "fromFrame (after ?restart) = fst r" "toFrame (after ?restart) = snd r"
    "currentFrame (after ?restart) = fst r"
    by (simp_all add: started_fields s1)
  have toggle: "fromFrame ?toggle = fst r" "toFrame ?toggle = snd r" "currentFrame ?toggle = - 1"
    by (simp_all add: s1)
  from ok have "play from to noToggle s = ?restart \<or> play from to noToggle s = Inr ?toggle
      \<or> play from to noToggle s = Inl (TypeError, s1)"
    unfolding play_def Let_def n(1) [symmetric] s0_def [symmetric] r_def [symmetric]
      s1_def [symmetric]
    by (simp split: option.split)
  with ret consider "?restart = Inr s'" | "s' = ?toggle" by auto
  then show ?thesis
  proof cases
    case 1
    with restart have "fromFrame s' = fst r" "toFrame s' = snd r" "currentFrame s' = fst r"
      by simp_all
    with pr show ?thesis by simp
  next
    case 2
    with toggle pr show ?thesis by simp
  qed
qed

section \<open>Ticks at the end of a frame\<close>

text \<open>
  The position has left the current frame and lies in the next one, on the same track:
  the tick moves on to the next frame without a call to the engine, and calls the handler
  of the object \<^verbatim>\<open>this\<close> is bound to, if that object has one.
\<close>

lemma smooth_continuation:
  assumes "active_on s f t h" "playState (sounds s h) \<noteq> 0"
    "\<not> within f (position (sounds s h) + 200) (position (sounds s h))"
    "currentFrame s \<noteq> toFrame s" "frame_at s (currentFrame s + 1) = Inr g"
    "f_audioRef g = f_audioRef f" "within g (position (sounds s h)) (position (sounds s h))"
  shows "\<exists>s'. thread this s = Inr s' \<and> currentFrame s' = currentFrame s + 1
    \<and> log s' = log s @
        (if (case this of ThisPlayer \<Rightarrow> onFrameChange s | ThisWindow \<Rightarrow> window_onFrameChange s)
         then [FrameChange this (currentFrame s + 1)] else [])"
  unfolding thread_smooth [OF assms] by (cases this) (simp_all add: notify_def)

text \<open>
  The track of the last frame in range has stopped playing: the session ends, and no
  timer is set.
\<close>

lemma last_frame_ended:
  assumes "active_on s f t h" "playState (sounds s h) = 0" "currentFrame s = toFrame s"
  shows "\<exists>s'. thread this s = Inr s' \<and> currentFrame s' = - 1 \<and> timers s' = timers s
    \<and> log s' = log s @ StopAll #
        (if (case this of ThisPlayer \<Rightarrow> onFrameChange s | ThisWindow \<Rightarrow> window_onFrameChange s)
         then [FrameChange this (- 1)] else [])"
  unfolding thread_ended_last [OF assms] by (cases this) (simp_all add: notify_def stopAll_def)

text \<open>
  Claim C3. When a tick finds the end of the last frame in range crossed, the session
  should end with one idle notification and no further wake-up. In the scenario,
  \<^verbatim>\<open>play(2, 2)\<close> is under way and the engine has played past the frame's end at 2150.
  The interval (handle 3) ticks: the tick stops the engine, sets \<open>currentFrame = -1\<close> and
  notifies the handler, and then line 227 calls \<^verbatim>\<open>run(10)\<close>, which sets a precise
  wake-up (handle 4) 10 milliseconds ahead. The branch for a track that has stopped
  playing (lines 231 to 234) sets none.
\<close>

theorem last_frame_boundary_schedules_wakeup:
  "currentFrame ending_2_2 = 2 \<and> toFrame ending_2_2 = 2
   \<and> timers ending_2_2 = [\<lparr>tm_id = 3, tm_kind = Interval, tm_delay = Fin 100, tm_cb = CbThread\<rparr>]
   \<and> currentFrame (after (fire 3 ending_2_2)) = - 1
   \<and> log (after (fire 3 ending_2_2)) = log ending_2_2 @ [StopAll, FrameChange ThisPlayer (- 1)]
   \<and> timers (after (fire 3 ending_2_2)) =
        [\<lparr>tm_id = 4, tm_kind = Timeout, tm_delay = Fin 10, tm_cb = CbRun\<rparr>]"
  by (simp add: evals)

text \<open>
  Claim C4. When playback runs on from frame N into frame N+1 of the same track, the
  tick should move on without a seek or restart and emit one notification with the new
  index. In the scenario, \<^verbatim>\<open>play(0, 2)\<close> is under way with a handler registered on the
  player, a precise wake-up (handle 4) is pending, and the engine has played to position
  251, past the end of frame 0 at 250 and inside frame 1. The wake-up's callback calls
  \<^verbatim>\<open>thread()\<close> as a plain function (line 181), so \<^verbatim>\<open>this\<close> is the global object and
  line 226 looks for the handler there, where the page has none: the tick moves on to
  frame 1 and the player's handler is not called.
\<close>

theorem smooth_continuation_unnotified:
  "onFrameChange crossing_0_1 \<and> currentFrame crossing_0_1 = 0 \<and> toFrame crossing_0_1 = 2
   \<and> timers crossing_0_1 = [\<lparr>tm_id = 4, tm_kind = Timeout, tm_delay = Fin 70, tm_cb = CbRun\<rparr>]
   \<and> \<not> window_onFrameChange crossing_0_1
   \<and> currentFrame (after (fire 4 crossing_0_1)) = 1
   \<and> log (after (fire 4 crossing_0_1)) = log crossing_0_1"
  by (simp add: evals)

section \<open>Calling play while playing\<close>

text \<open>
  Claim C5. A session is active and its track is playing: \<^verbatim>\<open>errorsLoading\<close> is not set,
  \<open>currentFrame\<close> is an index of the array, and the sound of the current frame's track
  reports that it is playing. Then \<^verbatim>\<open>play(a, b)\<close> without the third argument stops all
  playback, sets \<open>currentFrame = -1\<close>, and fires the notification: the handler registered
  on the player is called with \<open>-1\<close>.
\<close>

theorem play_toggles_off:
  assumes ok: "\<not> errorsLoading s"
    and cur: "0 \<le> currentFrame s" "currentFrame s < int (length (arrays s (audioFrames s)))"
    and t: "audio_at s (f_audioRef (objects s (arrays s (audioFrames s) ! nat (currentFrame s)))) = Some t"
    and h: "t_object t = Some h" and playing: "playState (sounds s h) \<noteq> 0"
  shows "\<exists>s'. play a b False s = Inr s' \<and> currentFrame s' = - 1
    \<and> log s' = log s @ StopAll # (if onFrameChange s then [FrameChange ThisPlayer (- 1)] else [])"
proof -
  define s0 where "s0 = (if \<not> doneLoading s
      then snd (set_timer Timeout (CbReplay a b False) (Fin 100) s) else s)"
  define r where "r = play_range a b (int (length (arrays s (audioFrames s))))"
  define s1 where "s1 = s0\<lparr>fromFrame := fst r, toFrame := snd r\<rparr>"
  have same: "audio s1 = audio s" "arrays s1 = arrays s" "objects s1 = objects s"
    "audioFrames s1 = audioFrames s" "sounds s1 = sounds s" "currentFrame s1 = currentFrame s"
    "log s1 = log s" "onFrameChange s1 = onFrameChange s"
    by (simp_all add: s1_def s0_def)
  from t have t1: "audio_at s1 (f_audioRef (objects s (arrays s (audioFrames s) ! nat (currentFrame s)))) = Some t"
    by (simp add: same audio_at_cong [of s1 s])
  have "play a b False s = Inr (run (Fin 0) (notify ThisPlayer ((stopAll s1)\<lparr>currentFrame := - 1\<rparr>)))"
    unfolding play_def Let_def s0_def [symmetric] r_def [symmetric] s1_def [symmetric]
    using ok cur h playing by (simp add: same t1)
  moreover have "log (notify ThisPlayer ((stopAll s1)\<lparr>currentFrame := - 1\<rparr>)) =
      log s @ StopAll # (if onFrameChange s then [FrameChange ThisPlayer (- 1)] else [])"
    by (simp add: notify_def stopAll_def same)
  moreover have "currentFrame (notify ThisPlayer ((stopAll s1)\<lparr>currentFrame := - 1\<rparr>)) = - 1"
    by (simp add: notify_def stopAll_def)
  ultimately show ?thesis by simp
qed

theorem play_toggles_off_witness:
  "\<exists>s'. play 0 2 False playing_0_2 = Inr s' \<and> currentFrame s' = - 1
    \<and> log s' = log playing_0_2 @ [StopAll, FrameChange ThisPlayer (- 1)]"
proof -
  note f = playing_0_2_facts
  have t: "audio_at playing_0_2 (f_audioRef (objects playing_0_2
      (arrays playing_0_2 (audioFrames playing_0_2) ! nat (currentFrame playing_0_2)))) =
      Some \<lparr>t_id = ''comic_1_0'', t_url = ''A'', t_object = Some ''comic_1_0''\<rparr>"
    using f(1) by (simp add: active_on_def frame_at_def f(7,8))
  have p: "playState (sounds playing_0_2 ''comic_1_0'') \<noteq> 0"
    by (simp add: f reporting_def)
  from play_toggles_off [OF f(6) _ _ t _ p, of 0 2] f(5,7,8) show ?thesis
    by simp
qed

end
